theory Spec2Isabelle
  imports Main "HOL-Library.AList"
begin

section \<open>Python values\<close>

text \<open>
  The program handles the values that \<^verbatim>\<open>json.loads\<close> and \<^verbatim>\<open>urllib.parse\<close> produce:
  \<^verbatim>\<open>None\<close>, booleans, integers, floats, strings, lists and dictionaries with string keys.

  \<^item> A Python \<^verbatim>\<open>str\<close> is modelled by the bytes of its UTF-8 encoding, a \<^typ>\<open>string\<close>.
    Every string operation of the program that is modelled here (splitting at ASCII
    delimiters, prefix tests, replacement of an ASCII literal, percent-quoting) gives the
    same bytes whether it works on code points or on their UTF-8 encoding.
  \<^item> A string that \<^verbatim>\<open>json.loads\<close> builds from the escape of a surrogate code
    point (U+D800 to U+DFFF) holds a lone surrogate. It is modelled by the three bytes that the generalized UTF-8 form gives
    to that code point, which strict UTF-8 forbids. So the strings that
    \<^verbatim>\<open>s.encode("utf-8")\<close> rejects are the strings here that are not well-formed UTF-8,
    and every place where the program encodes a string is a place where the model can fail.
  \<^item> A float is modelled by its \<^verbatim>\<open>repr\<close>, the shortest decimal string that reads back as
    the same float. The program only compares a float with zero and prints it.
  \<^item> A dictionary keeps its insertion order, so it is an association list: a lookup
    is \<^const>\<open>map_of\<close>, and the assignment \<^verbatim>\<open>d[k] = v\<close> is \<^const>\<open>AList.update\<close>, which
    replaces the value in place when the key exists and appends the pair otherwise.
\<close>

datatype pyval =
    PNone
  | PBool bool
  | PInt int
  | PFloat string
  | PStr string
  | PList "pyval list"
  | PDict "(string \<times> pyval) list"

type_synonym pydict = "(string \<times> pyval) list"

datatype error =
    KeyError string
  | TypeError
  | AttributeError
  | ValueError
  | UnicodeError
  | Base64Error
  | JSONDecodeError
  | SystemExit nat

section \<open>String operations of the standard library\<close>

definition is_space :: "char \<Rightarrow> bool" where
  "is_space c = (let n = (of_char c :: nat) in (9 \<le> n \<and> n \<le> 13) \<or> (28 \<le> n \<and> n \<le> 32))"

text \<open>
  \<open>ws_len s\<close> is the number of bytes that the whitespace character at the head of \<open>s\<close>
  takes, and 0 when \<open>s\<close> does not start with whitespace. The whitespace of
  \<^verbatim>\<open>str.strip()\<close> is U+0009 to U+000D, U+001C to U+0020, U+0085, U+00A0, U+1680,
  U+2000 to U+200A, U+2028, U+2029, U+202F, U+205F and U+3000.
\<close>

fun ws_len :: "string \<Rightarrow> nat" where
  "ws_len [] = 0"
| "ws_len [c] = (if is_space c then 1 else 0)"
| "ws_len [c, d] =
     (if is_space c then 1
      else if (of_char c :: nat) = 0xC2 \<and> (of_char d :: nat) \<in> {0x85, 0xA0} then 2
      else 0)"
| "ws_len (c # d # e # s) =
     (let a = (of_char c :: nat); b = (of_char d :: nat); x = (of_char e :: nat) in
      if is_space c then 1
      else if a = 0xC2 \<and> b \<in> {0x85, 0xA0} then 2
      else if a = 0xE1 \<and> b = 0x9A \<and> x = 0x80 then 3
      else if a = 0xE2 \<and> b = 0x80 \<and> (x \<le> 0x8A \<and> 0x80 \<le> x \<or> x \<in> {0xA8, 0xA9, 0xAF}) then 3
      else if a = 0xE2 \<and> b = 0x81 \<and> x = 0x9F then 3
      else if a = 0xE3 \<and> b = 0x80 \<and> x = 0x80 then 3
      else 0)"

text \<open>The same on the reversed string: the whitespace character at the end.\<close>

fun ws_len_rev :: "string \<Rightarrow> nat" where
  "ws_len_rev [] = 0"
| "ws_len_rev [c] = (if is_space c then 1 else 0)"
| "ws_len_rev [d, c] =
     (if is_space d then 1
      else if (of_char c :: nat) = 0xC2 \<and> (of_char d :: nat) \<in> {0x85, 0xA0} then 2
      else 0)"
| "ws_len_rev (e # d # c # s) =
     (let a = (of_char c :: nat); b = (of_char d :: nat); x = (of_char e :: nat) in
      if is_space e then 1
      else if b = 0xC2 \<and> x \<in> {0x85, 0xA0} then 2
      else if a = 0xE1 \<and> b = 0x9A \<and> x = 0x80 then 3
      else if a = 0xE2 \<and> b = 0x80 \<and> (x \<le> 0x8A \<and> 0x80 \<le> x \<or> x \<in> {0xA8, 0xA9, 0xAF}) then 3
      else if a = 0xE2 \<and> b = 0x81 \<and> x = 0x9F then 3
      else if a = 0xE3 \<and> b = 0x80 \<and> x = 0x80 then 3
      else 0)"

lemma ws_len_le: "ws_len s \<le> length s"
  by (induction s rule: ws_len.induct) (simp_all add: Let_def)

lemma ws_len_rev_le: "ws_len_rev s \<le> length s"
  by (induction s rule: ws_len_rev.induct) (simp_all add: Let_def)

function lstrip :: "string \<Rightarrow> string" where
  "lstrip s = (if ws_len s = 0 then s else lstrip (drop (ws_len s) s))"
  by pat_completeness auto
termination
proof (relation "measure length")
  show "wf (measure length)" by simp
next
  fix s :: string
  assume "ws_len s \<noteq> 0"
  moreover have "ws_len s \<le> length s" by (rule ws_len_le)
  ultimately show "(drop (ws_len s) s, s) \<in> measure length" by simp
qed

function rstrip_rev :: "string \<Rightarrow> string" where
  "rstrip_rev s = (if ws_len_rev s = 0 then s else rstrip_rev (drop (ws_len_rev s) s))"
  by pat_completeness auto
termination
proof (relation "measure length")
  show "wf (measure length)" by simp
next
  fix s :: string
  assume "ws_len_rev s \<noteq> 0"
  moreover have "ws_len_rev s \<le> length s" by (rule ws_len_rev_le)
  ultimately show "(drop (ws_len_rev s) s, s) \<in> measure length" by simp
qed

declare lstrip.simps [simp del] rstrip_rev.simps [simp del]

definition rstrip :: "string \<Rightarrow> string" where
  "rstrip s = rev (rstrip_rev (rev s))"

definition strip :: "string \<Rightarrow> string" where
  "strip s = rstrip (lstrip s)"

text \<open>An ASCII character that is not whitespace: where it stands, \<^verbatim>\<open>strip\<close> stops.\<close>

definition solid :: "char \<Rightarrow> bool" where
  "solid c = (\<not> is_space c \<and> (of_char c :: nat) < 0x80)"

text \<open>
  \<^verbatim>\<open>str.lower()\<close> on the ASCII letters. A character outside ASCII is left as it is; no such
  character lowers to an ASCII letter other than \<open>i\<close> and \<open>k\<close>.
\<close>

definition lower_char :: "char \<Rightarrow> char" where
  "lower_char c =
     (case map_of (zip ''ABCDEFGHIJKLMNOPQRSTUVWXYZ'' ''abcdefghijklmnopqrstuvwxyz'') c of
        Some d \<Rightarrow> d
      | None \<Rightarrow> c)"

definition lower :: "string \<Rightarrow> string" where
  "lower s = map lower_char s"

definition startswith :: "string \<Rightarrow> string \<Rightarrow> bool" where
  "startswith s p = (take (length p) s = p)"

definition endswith :: "string \<Rightarrow> string \<Rightarrow> bool" where
  "endswith s p = (length p \<le> length s \<and> drop (length s - length p) s = p)"

definition join :: "string \<Rightarrow> string list \<Rightarrow> string" where
  "join sep xs = (case xs of [] \<Rightarrow> [] | y # ys \<Rightarrow> y @ concat (map (\<lambda>z. sep @ z) ys))"

section \<open>Conversion to text: \<^verbatim>\<open>str\<close> and \<^verbatim>\<open>repr\<close>\<close>

function dec_nat :: "nat \<Rightarrow> string" where
  "dec_nat n = (if n < 10 then [''0123456789'' ! n] else dec_nat (n div 10) @ [''0123456789'' ! (n mod 10)])"
  by pat_completeness auto
termination
  by (relation "measure id") auto

declare dec_nat.simps [simp del]

definition str_int :: "int \<Rightarrow> string" where
  "str_int i = (if i < 0 then CHR ''-'' # dec_nat (nat (- i)) else dec_nat (nat i))"

definition hex_digit_lower :: "nat \<Rightarrow> char" where
  "hex_digit_lower n = ''0123456789abcdef'' ! n"

text \<open>
  \<^verbatim>\<open>repr\<close> of a string: single quotes, unless the string has a single quote and no
  double quote; the quote and the backslash are escaped, tab, newline and carriage return
  are written with their letter, and the other ASCII control characters as \<^verbatim>\<open>\xNN\<close>.
  Bytes of characters outside ASCII are kept (the non-printable characters outside ASCII,
  which \<^verbatim>\<open>repr\<close> escapes, are not told apart here).
\<close>

definition repr_char :: "char \<Rightarrow> char \<Rightarrow> string" where
  "repr_char q c =
     (let n = (of_char c :: nat) in
      if c = q \<or> n = 0x5C then [CHR 0x5C, c]
      else if n = 9 then [CHR 0x5C, CHR ''t'']
      else if n = 10 then [CHR 0x5C, CHR ''n'']
      else if n = 13 then [CHR 0x5C, CHR ''r'']
      else if n < 32 \<or> n = 127 then
        [CHR 0x5C, CHR ''x'', hex_digit_lower (n div 16), hex_digit_lower (n mod 16)]
      else [c])"

definition repr_str :: "string \<Rightarrow> string" where
  "repr_str s =
     (let q = (if CHR 0x27 \<in> set s \<and> CHR 0x22 \<notin> set s then CHR 0x22 else CHR 0x27)
      in q # concat (map (repr_char q) s) @ [q])"

fun py_repr :: "pyval \<Rightarrow> string" where
  "py_repr PNone = ''None''"
| "py_repr (PBool b) = (if b then ''True'' else ''False'')"
| "py_repr (PInt i) = str_int i"
| "py_repr (PFloat r) = r"
| "py_repr (PStr s) = repr_str s"
| "py_repr (PList xs) = ''['' @ join '', '' (map py_repr xs) @ '']''"
| "py_repr (PDict kvs) =
     ''{'' @ join '', '' (map (\<lambda>kv. repr_str (fst kv) @ '': '' @ py_repr (snd kv)) kvs) @ ''}''"

text \<open>\<^verbatim>\<open>str(v)\<close>, which is also what an f-string writes for \<^verbatim>\<open>{v}\<close>.\<close>

fun py_str :: "pyval \<Rightarrow> string" where
  "py_str (PStr s) = s"
| "py_str v = py_repr v"

text \<open>A float is zero when its \<^verbatim>\<open>repr\<close> is \<^verbatim>\<open>0.0\<close> or \<^verbatim>\<open>-0.0\<close>.\<close>

definition float_nonzero :: "string \<Rightarrow> bool" where
  "float_nonzero r = (r \<noteq> ''0.0'' \<and> r \<noteq> ''-0.0'')"

text \<open>The truth value of a Python value, as \<^verbatim>\<open>if v:\<close> takes it.\<close>

fun truthy :: "pyval \<Rightarrow> bool" where
  "truthy PNone = False"
| "truthy (PBool b) = b"
| "truthy (PInt i) = (i \<noteq> 0)"
| "truthy (PFloat r) = float_nonzero r"
| "truthy (PStr s) = (s \<noteq> [])"
| "truthy (PList xs) = (xs \<noteq> [])"
| "truthy (PDict kvs) = (kvs \<noteq> [])"

section \<open>Truthy coercion\<close>

fun truthy_to_int :: "pyval \<Rightarrow> int" where
  "truthy_to_int (PBool b) = (if b then 1 else 0)"
| "truthy_to_int (PInt i) = (if i \<noteq> 0 then 1 else 0)"
| "truthy_to_int (PFloat r) = (if float_nonzero r then 1 else 0)"
| "truthy_to_int (PStr v) =
     (let s = lower (strip v)
      in if s \<in> set [''1'', ''true'', ''yes'', ''y'', ''on''] then 1 else 0)"
| "truthy_to_int _ = 0"

section \<open>The record normalizer\<close>

definition WANTED_ORDER_VMESS :: "string list" where
  "WANTED_ORDER_VMESS =
     [''add'', ''aid'', ''allowInsecure'', ''alpn'', ''fp'', ''host'', ''id'', ''net'', ''path'',
      ''port'', ''ps'', ''scy'', ''sni'', ''tls'', ''type'', ''v'']"

definition WANTED_ORDER_VLESS :: "string list" where
  "WANTED_ORDER_VLESS =
     [''add'', ''port'', ''id'', ''ps'', ''type'', ''encryption'', ''security'',
      ''sni'', ''host'', ''path'', ''seed'', ''fp'', ''alpn'', ''allowInsecure'',
      ''mode'', ''pbk'', ''sid'', ''spx'', ''pqv'', ''ech'', ''flow'']"

definition DEFAULTS_IF_MISSING_VMESS :: pydict where
  "DEFAULTS_IF_MISSING_VMESS =
     [(''aid'', PStr ''0''), (''alpn'', PStr []), (''type'', PStr []), (''allowInsecure'', PInt 1)]"

definition DEFAULTS_IF_MISSING_VLESS :: pydict where
  "DEFAULTS_IF_MISSING_VLESS =
     [(''encryption'', PStr ''none''), (''security'', PStr ''none''), (''type'', PStr ''tcp''),
      (''allowInsecure'', PInt 1)]"

text \<open>\<^verbatim>\<open>k in d\<close> and \<^verbatim>\<open>d.get(k, default)\<close>.\<close>

definition has_key :: "pydict \<Rightarrow> string \<Rightarrow> bool" where
  "has_key d k = (map_of d k \<noteq> None)"

definition dict_get :: "pydict \<Rightarrow> string \<Rightarrow> pyval \<Rightarrow> pyval" where
  "dict_get d k dflt = (case map_of d k of Some v \<Rightarrow> v | None \<Rightarrow> dflt)"

text \<open>\<^verbatim>\<open>if k in out: out[k] = f(out[k])\<close>\<close>

definition coerce_field :: "string \<Rightarrow> (pyval \<Rightarrow> pyval) \<Rightarrow> pydict \<Rightarrow> pydict" where
  "coerce_field k f out = (case map_of out k of Some v \<Rightarrow> AList.update k (f v) out | None \<Rightarrow> out)"

text \<open>\<^verbatim>\<open>for k, v in defaults.items(): if k not in out: out[k] = v\<close>\<close>

fun inject_defaults :: "pydict \<Rightarrow> pydict \<Rightarrow> pydict" where
  "inject_defaults [] out = out"
| "inject_defaults ((k, v) # kvs) out =
     inject_defaults kvs (if \<not> has_key out k then AList.update k v out else out)"

text \<open>\<^verbatim>\<open>for k in wanted: if k not in out: out[k] = ""\<close>\<close>

fun inject_empty :: "string list \<Rightarrow> pydict \<Rightarrow> pydict" where
  "inject_empty [] out = out"
| "inject_empty (k # ks) out =
     inject_empty ks (if \<not> has_key out k then AList.update k (PStr []) out else out)"

text \<open>
  The comprehension \<^verbatim>\<open>{k: out.get(k, "") for k in wanted}\<close>: the keys of the two tables
  are distinct, so the new dictionary has one pair for each key, in the order of the table.
\<close>

definition project :: "string list \<Rightarrow> pydict \<Rightarrow> pydict" where
  "project wanted out = map (\<lambda>k. (k, dict_get out k (PStr []))) wanted"

definition normalize_vmess_entry :: "pydict \<Rightarrow> pydict" where
  "normalize_vmess_entry d =
     (let out = d;
          out = coerce_field ''port'' (\<lambda>v. PStr (py_str v)) out;
          out = coerce_field ''allowInsecure'' (\<lambda>v. PInt (truthy_to_int v)) out;
          out = inject_defaults DEFAULTS_IF_MISSING_VMESS out;
          out = inject_empty WANTED_ORDER_VMESS out;
          ordered = project WANTED_ORDER_VMESS out
      in AList.update ''_type'' (PStr ''vmess'') ordered)"

definition normalize_vless_entry :: "pydict \<Rightarrow> pydict" where
  "normalize_vless_entry d =
     (let out = d;
          out = coerce_field ''port'' (\<lambda>v. PStr (py_str v)) out;
          out = coerce_field ''allowInsecure'' (\<lambda>v. PInt (truthy_to_int v)) out;
          out = inject_defaults DEFAULTS_IF_MISSING_VLESS out;
          out = inject_empty WANTED_ORDER_VLESS out;
          ordered = project WANTED_ORDER_VLESS out
      in AList.update ''_type'' (PStr ''vless'') ordered)"

definition normalize_entry :: "pydict \<Rightarrow> pydict" where
  "normalize_entry d =
     (if map_of d ''_type'' = Some (PStr ''vless'') then normalize_vless_entry d
      else normalize_vmess_entry d)"

text \<open>
  The value that normalization gives to field \<open>k\<close>, read off the raw record \<open>d\<close> and
  the table of defaults: the coerced value when the field is present, the default or the
  empty string when it is not. It is used to state what the normalizers compute.
\<close>

definition field_value :: "pydict \<Rightarrow> pydict \<Rightarrow> string \<Rightarrow> pyval" where
  "field_value dfl d k =
     (case map_of d k of
        Some v \<Rightarrow> (if k = ''allowInsecure'' then PInt (truthy_to_int v)
                   else if k = ''port'' then PStr (py_str v) else v)
      | None \<Rightarrow> (case map_of dfl k of Some v \<Rightarrow> v | None \<Rightarrow> PStr []))"

section \<open>Compact JSON text\<close>

text \<open>
  \<^verbatim>\<open>json.dumps(v, ensure_ascii=False, separators=(",", ":"))\<close>. A string is quoted; the
  double quote, the backslash and the control characters below U+0020 are escaped, and
  every other character is written as it is. A float is written by its \<^verbatim>\<open>repr\<close>, except
  for the three values that are not numbers of JSON. The members of a dictionary come in
  the order of the dictionary.
\<close>

definition json_escape_char :: "char \<Rightarrow> string" where
  "json_escape_char c =
     (let n = (of_char c :: nat) in
      if n = 0x22 then [CHR 0x5C, CHR 0x22]
      else if n = 0x5C then [CHR 0x5C, CHR 0x5C]
      else if n = 8 then [CHR 0x5C, CHR ''b'']
      else if n = 12 then [CHR 0x5C, CHR ''f'']
      else if n = 10 then [CHR 0x5C, CHR ''n'']
      else if n = 13 then [CHR 0x5C, CHR ''r'']
      else if n = 9 then [CHR 0x5C, CHR ''t'']
      else if n < 32 then
        [CHR 0x5C, CHR ''u'', CHR ''0'', CHR ''0'', hex_digit_lower (n div 16), hex_digit_lower (n mod 16)]
      else [c])"

definition json_str :: "string \<Rightarrow> string" where
  "json_str s = CHR 0x22 # concat (map json_escape_char s) @ [CHR 0x22]"

definition json_float :: "string \<Rightarrow> string" where
  "json_float r =
     (if r = ''nan'' then ''NaN''
      else if r = ''inf'' then ''Infinity''
      else if r = ''-inf'' then ''-Infinity''
      else r)"

fun json_dumps :: "pyval \<Rightarrow> string" where
  "json_dumps PNone = ''null''"
| "json_dumps (PBool b) = (if b then ''true'' else ''false'')"
| "json_dumps (PInt i) = str_int i"
| "json_dumps (PFloat r) = json_float r"
| "json_dumps (PStr s) = json_str s"
| "json_dumps (PList xs) = ''['' @ join '','' (map json_dumps xs) @ '']''"
| "json_dumps (PDict kvs) =
     ''{'' @ join '','' (map (\<lambda>kv. json_str (fst kv) @ '':'' @ json_dumps (snd kv)) kvs) @ ''}''"

section \<open>Bytes and UTF-8\<close>

text \<open>The character with code \<open>n\<close>, written so that the simplifier computes it.\<close>

definition byte_char :: "nat \<Rightarrow> char" where
  "byte_char n = Char (odd n) (odd (n div 2)) (odd (n div 4)) (odd (n div 8))
                      (odd (n div 16)) (odd (n div 32)) (odd (n div 64)) (odd (n div 128))"

definition is_ascii :: "string \<Rightarrow> bool" where
  "is_ascii s = list_all (\<lambda>c. (of_char c :: nat) < 128) s"

definition is_cont :: "char \<Rightarrow> bool" where
  "is_cont d = (0x80 \<le> (of_char d :: nat) \<and> (of_char d :: nat) \<le> 0xBF)"

text \<open>
  The second byte that may follow the first byte \<open>c\<close> of a sequence of three or four
  bytes: the ranges exclude the overlong forms, the surrogates and the code points above
  U+10FFFF.
\<close>

definition second_ok :: "char \<Rightarrow> char \<Rightarrow> bool" where
  "second_ok c d =
     (let a = (of_char c :: nat); b = (of_char d :: nat) in
      if a = 0xE0 then 0xA0 \<le> b \<and> b \<le> 0xBF
      else if a = 0xED then 0x80 \<le> b \<and> b \<le> 0x9F
      else if a = 0xF0 then 0x90 \<le> b \<and> b \<le> 0xBF
      else if a = 0xF4 then 0x80 \<le> b \<and> b \<le> 0x8F
      else 0x80 \<le> b \<and> b \<le> 0xBF)"

text \<open>\<^verbatim>\<open>bytes.decode("utf-8")\<close> succeeds on exactly the well-formed byte sequences.\<close>

fun utf8_valid :: "string \<Rightarrow> bool" where
  "utf8_valid [] = True"
| "utf8_valid (c # s) =
     (let a = (of_char c :: nat) in
      if a < 0x80 then utf8_valid s
      else if 0xC2 \<le> a \<and> a \<le> 0xDF then
        (case s of d # s1 \<Rightarrow> is_cont d \<and> utf8_valid s1 | _ \<Rightarrow> False)
      else if 0xE0 \<le> a \<and> a \<le> 0xEF then
        (case s of d # e # s2 \<Rightarrow> second_ok c d \<and> is_cont e \<and> utf8_valid s2 | _ \<Rightarrow> False)
      else if 0xF0 \<le> a \<and> a \<le> 0xF4 then
        (case s of d # e # f # s3 \<Rightarrow> second_ok c d \<and> is_cont e \<and> is_cont f \<and> utf8_valid s3
         | _ \<Rightarrow> False)
      else False)"

text \<open>
  \<^verbatim>\<open>bytes.decode("utf-8", "replace")\<close>, read again as UTF-8: a well-formed sequence is
  kept, and every maximal ill-formed part (a byte that cannot start a sequence, or the start
  of a sequence up to the byte that cannot continue it) becomes U+FFFD.
\<close>

definition FFFD :: string where
  "FFFD = [CHR 0xEF, CHR 0xBF, CHR 0xBD]"

fun utf8_replace :: "string \<Rightarrow> string" where
  "utf8_replace [] = []"
| "utf8_replace (c # s) =
     (let a = (of_char c :: nat) in
      if a < 0x80 then c # utf8_replace s
      else if 0xC2 \<le> a \<and> a \<le> 0xDF then
        (case s of
           [] \<Rightarrow> FFFD
         | d # s1 \<Rightarrow> if is_cont d then c # d # utf8_replace s1 else FFFD @ utf8_replace s)
      else if 0xE0 \<le> a \<and> a \<le> 0xEF then
        (case s of
           [] \<Rightarrow> FFFD
         | d # s1 \<Rightarrow>
             if \<not> second_ok c d then FFFD @ utf8_replace s
             else (case s1 of
                     [] \<Rightarrow> FFFD
                   | e # s2 \<Rightarrow>
                       if is_cont e then c # d # e # utf8_replace s2 else FFFD @ utf8_replace s1))
      else if 0xF0 \<le> a \<and> a \<le> 0xF4 then
        (case s of
           [] \<Rightarrow> FFFD
         | d # s1 \<Rightarrow>
             if \<not> second_ok c d then FFFD @ utf8_replace s
             else (case s1 of
                     [] \<Rightarrow> FFFD
                   | e # s2 \<Rightarrow>
                       if \<not> is_cont e then FFFD @ utf8_replace s1
                       else (case s2 of
                               [] \<Rightarrow> FFFD
                             | f # s3 \<Rightarrow>
                                 if is_cont f then c # d # e # f # utf8_replace s3
                                 else FFFD @ utf8_replace s2)))
      else FFFD @ utf8_replace s)"

section \<open>Parsing JSON text\<close>

text \<open>
  \<^verbatim>\<open>json.loads\<close> is the parser of the standard library. The functions of the program that
  call it take it as the argument \<open>json_loads\<close>: it gives the parsed value, or \<open>None\<close>
  when it raises \<^verbatim>\<open>JSONDecodeError\<close>. What is proved holds for every such function.
\<close>

type_synonym loads = "string \<Rightarrow> pyval option"

section \<open>Base64 and string replacement\<close>

definition b64chars :: string where
  "b64chars = ''ABCDEFGHIJKLMNOPQRSTUVWXYZabcdefghijklmnopqrstuvwxyz0123456789+/''"

text \<open>\<^verbatim>\<open>base64.b64encode\<close>: three bytes give four characters, the last group is padded.\<close>

fun b64encode :: "string \<Rightarrow> string" where
  "b64encode [] = []"
| "b64encode [a] =
     (let x = (of_char a :: nat)
      in [b64chars ! (x div 4), b64chars ! ((x mod 4) * 16), CHR ''='', CHR ''=''])"
| "b64encode [a, b] =
     (let x = (of_char a :: nat); y = (of_char b :: nat)
      in [b64chars ! (x div 4), b64chars ! ((x mod 4) * 16 + y div 16),
          b64chars ! ((y mod 16) * 4), CHR ''=''])"
| "b64encode (a # b # c # rest) =
     (let x = (of_char a :: nat); y = (of_char b :: nat); z = (of_char c :: nat)
      in [b64chars ! (x div 4), b64chars ! ((x mod 4) * 16 + y div 16),
          b64chars ! ((y mod 16) * 4 + z div 64), b64chars ! (z mod 64)] @ b64encode rest)"

text \<open>
  \<^verbatim>\<open>s.replace(old, new)\<close>: the occurrences of \<open>old\<close> are found from the left and do not
  overlap. With an empty \<open>old\<close>, \<open>new\<close> is put before every character and at the end.
\<close>

function str_replace :: "string \<Rightarrow> string \<Rightarrow> string \<Rightarrow> string" where
  "str_replace old new [] = (if old = [] then new else [])"
| "str_replace old new (c # s) =
     (if old = [] then new @ c # str_replace old new s
      else if take (length old) (c # s) = old
           then new @ str_replace old new (drop (length old) (c # s))
           else c # str_replace old new s)"
  by pat_completeness auto
termination
  by (relation "measure (\<lambda>(old, new, s). length s)") auto

text \<open>\<^verbatim>\<open>k in s\<close> for two strings: \<open>k\<close> occurs in \<open>s\<close>.\<close>

fun is_substr :: "string \<Rightarrow> string \<Rightarrow> bool" where
  "is_substr k [] = (k = [])"
| "is_substr k (c # s) = (take (length k) (c # s) = k \<or> is_substr k s)"

section \<open>Operations on a parsed template\<close>

text \<open>
  The template that \<^verbatim>\<open>json.loads\<close> gives need not be a dictionary. The three operations
  the program applies to it (\<^verbatim>\<open>k in obj\<close>, \<^verbatim>\<open>obj[k]\<close>, \<^verbatim>\<open>obj[k] = v\<close>, with a string
  \<open>k\<close>) raise \<^verbatim>\<open>TypeError\<close> on the values that do not support them.
\<close>

definition then_do :: "error + 'a \<Rightarrow> ('a \<Rightarrow> error + 'b) \<Rightarrow> error + 'b" where
  "then_do m f = (case m of Inl e \<Rightarrow> Inl e | Inr x \<Rightarrow> f x)"

fun py_contains :: "pyval \<Rightarrow> string \<Rightarrow> error + bool" where
  "py_contains (PDict d) k = Inr (has_key d k)"
| "py_contains (PList xs) k = Inr (PStr k \<in> set xs)"
| "py_contains (PStr s) k = Inr (is_substr k s)"
| "py_contains _ k = Inl TypeError"

fun py_getitem :: "pyval \<Rightarrow> string \<Rightarrow> error + pyval" where
  "py_getitem (PDict d) k = (case map_of d k of Some v \<Rightarrow> Inr v | None \<Rightarrow> Inl (KeyError k))"
| "py_getitem _ k = Inl TypeError"

fun py_setitem :: "pyval \<Rightarrow> string \<Rightarrow> pyval \<Rightarrow> error + pyval" where
  "py_setitem (PDict d) k v = Inr (PDict (AList.update k v d))"
| "py_setitem _ k v = Inl TypeError"

text \<open>\<^verbatim>\<open>if k in obj: obj[k] = v\<close>\<close>

definition set_if_present :: "string \<Rightarrow> pyval \<Rightarrow> pyval \<Rightarrow> error + pyval" where
  "set_if_present k v obj =
     then_do (py_contains obj k) (\<lambda>b. if b then py_setitem obj k v else Inr obj)"

text \<open>\<^verbatim>\<open>if "ps" in obj: obj["ps"] = f'{obj["ps"]} ({rep})'\<close>\<close>

definition label_with :: "string \<Rightarrow> pyval \<Rightarrow> error + pyval" where
  "label_with rep obj =
     then_do (py_contains obj ''ps'') (\<lambda>b.
       if b then then_do (py_getitem obj ''ps'') (\<lambda>old.
                  py_setitem obj ''ps'' (PStr (py_str old @ '' ('' @ rep @ '')'')))
       else Inr obj)"

section \<open>The codec of scheme B: encoding\<close>

definition is_always_safe :: "char \<Rightarrow> bool" where
  "is_always_safe c =
     (c \<in> set ''ABCDEFGHIJKLMNOPQRSTUVWXYZabcdefghijklmnopqrstuvwxyz0123456789_.-~'')"

definition hex_digit_upper :: "nat \<Rightarrow> char" where
  "hex_digit_upper n = ''0123456789ABCDEF'' ! n"

text \<open>
  \<^verbatim>\<open>urllib.parse.quote_plus(s, safe='')\<close> on the UTF-8 bytes of \<open>s\<close>: an unreserved
  character stays, a space becomes \<^verbatim>\<open>+\<close>, every other byte becomes \<^verbatim>\<open>%XX\<close>.
\<close>

definition quote_plus_char :: "char \<Rightarrow> string" where
  "quote_plus_char c =
     (if is_always_safe c then [c]
      else if c = CHR '' '' then ''+''
      else [CHR ''%'', hex_digit_upper ((of_char c :: nat) div 16),
            hex_digit_upper ((of_char c :: nat) mod 16)])"

definition quote_plus :: "string \<Rightarrow> string" where
  "quote_plus s = concat (map quote_plus_char s)"

text \<open>
  \<^verbatim>\<open>urllib.parse.urlencode\<close> of a dictionary: \<^verbatim>\<open>k=v\<close> joined by \<^verbatim>\<open>&\<close>, the value
  through \<^verbatim>\<open>str\<close>. Quoting encodes the key and the value as UTF-8 and raises
  \<^verbatim>\<open>UnicodeEncodeError\<close> on a string with a lone surrogate; the \<^verbatim>\<open>str\<close> of a value that
  is not a string never has one.
\<close>

definition encodable :: "pyval \<Rightarrow> bool" where
  "encodable v = (case v of PStr s \<Rightarrow> utf8_valid s | _ \<Rightarrow> True)"

definition urlencode :: "pydict \<Rightarrow> error + string" where
  "urlencode q =
     (if list_all (\<lambda>kv. utf8_valid (fst kv) \<and> encodable (snd kv)) q
      then Inr (join ''&'' (map (\<lambda>kv. quote_plus (fst kv) @ ''='' @ quote_plus (py_str (snd kv))) q))
      else Inl UnicodeError)"

text \<open>
  \<^verbatim>\<open>urlunparse(("vless", netloc, "", "", query, fragment))\<close>. The network location and
  the query are strings; the fragment is \<^verbatim>\<open>config.get("ps", "")\<close>, which may be any value:
  a value that is true and not a string makes \<^verbatim>\<open>urlunparse\<close> raise \<^verbatim>\<open>TypeError\<close>
  (strings and other arguments cannot be mixed), a false one is left out.
\<close>

definition urlunparse_vless :: "string \<Rightarrow> string \<Rightarrow> pyval \<Rightarrow> error + string" where
  "urlunparse_vless netloc query fragment =
     (case fragment of
        PStr f \<Rightarrow>
          Inr (''vless://'' @ netloc @ (if query \<noteq> [] then ''?'' @ query else [])
               @ (if f \<noteq> [] then ''#'' @ f else []))
      | _ \<Rightarrow>
          if truthy fragment then Inl TypeError
          else Inr (''vless://'' @ netloc @ (if query \<noteq> [] then ''?'' @ query else [])))"

definition NON_QUERY_FIELDS :: "string list" where
  "NON_QUERY_FIELDS = [''add'', ''port'', ''id'', ''ps'']"

definition VLESS_QUERY_PARAMS :: "string list" where
  "VLESS_QUERY_PARAMS = filter (\<lambda>field. field \<notin> set NON_QUERY_FIELDS) WANTED_ORDER_VLESS"

text \<open>
  The loop of \<open>encode_vless_url\<close> that collects the query parameters: a key is taken when it
  is in the configuration and its value is true and is not the empty string.
\<close>

definition query_params :: "pydict \<Rightarrow> pydict" where
  "query_params config =
     concat (map (\<lambda>key. case map_of config key of
                          Some v \<Rightarrow> if truthy v \<and> v \<noteq> PStr [] then [(key, v)] else []
                        | None \<Rightarrow> [])
                 VLESS_QUERY_PARAMS)"

definition encode_vless_url :: "pyval \<Rightarrow> error + string" where
  "encode_vless_url config =
     then_do (py_getitem config ''id'') (\<lambda>id.
     then_do (py_getitem config ''add'') (\<lambda>add.
     then_do (py_getitem config ''port'') (\<lambda>port.
       (case config of
          PDict d \<Rightarrow>
            then_do (urlencode (query_params d)) (\<lambda>query_string.
              urlunparse_vless (py_str id @ ''@'' @ py_str add @ '':'' @ py_str port)
                query_string (dict_get d ''ps'' (PStr [])))
        | _ \<Rightarrow> Inl TypeError))))"

section \<open>The template substitution engine\<close>

text \<open>The part of the two loops that rewrites the parsed template for one substitution.\<close>

definition vmess_substitute :: "pyval \<Rightarrow> string \<Rightarrow> error + pyval" where
  "vmess_substitute template_obj rep =
     then_do (set_if_present ''sni'' (PStr rep) template_obj) (\<lambda>obj.
     then_do (set_if_present ''host'' (PStr rep) obj) (\<lambda>obj.
       label_with rep obj))"

text \<open>
  In the loop of scheme B the condition on the host is
  \<^verbatim>\<open>"host" in template_obj and template_obj['type'] not in ("xhttp", "ws")\<close>: the type is
  read only when the host is there, and reading it raises \<^verbatim>\<open>KeyError\<close> when it is missing.
\<close>

definition vless_set_host :: "string \<Rightarrow> pyval \<Rightarrow> error + pyval" where
  "vless_set_host rep obj =
     then_do (py_contains obj ''host'') (\<lambda>b.
       if b then then_do (py_getitem obj ''type'') (\<lambda>t.
                  if t \<noteq> PStr ''xhttp'' \<and> t \<noteq> PStr ''ws''
                  then py_setitem obj ''host'' (PStr rep) else Inr obj)
       else Inr obj)"

definition vless_substitute :: "pyval \<Rightarrow> string \<Rightarrow> error + pyval" where
  "vless_substitute template_obj rep =
     then_do (set_if_present ''sni'' (PStr rep) template_obj) (\<lambda>obj.
     then_do (vless_set_host rep obj) (\<lambda>obj.
       label_with rep obj))"

text \<open>The scheme-A wire form of a record: the compact JSON text in base64 after the prefix.\<close>

definition encode_vmess :: "pyval \<Rightarrow> string" where
  "encode_vmess obj = ''vmess://'' @ b64encode (json_dumps obj)"

text \<open>
  The body of the \<^verbatim>\<open>try\<close> of \<open>make_vmess_lines\<close> for one substitution, and the line the
  loop appends: when the body raises, the \<^verbatim>\<open>except\<close> replaces \<^verbatim>\<open>vk.com\<close> in the text
  of the template. The body raises when the parser does, when the rewriting does, and when
  \<^verbatim>\<open>replaced_json.encode("utf-8")\<close> does, on a lone surrogate in the record. The template
  and the substitutions are texts read from UTF-8 files, so the text that the fallback
  encodes is well-formed.
\<close>

definition vmess_try :: "loads \<Rightarrow> string \<Rightarrow> string \<Rightarrow> error + string" where
  "vmess_try json_loads template rep =
     (case json_loads template of
        None \<Rightarrow> Inl JSONDecodeError
      | Some template_obj \<Rightarrow>
          then_do (vmess_substitute template_obj rep) (\<lambda>obj.
            if utf8_valid (json_dumps obj) then Inr (encode_vmess obj) else Inl UnicodeError))"

definition vmess_line :: "loads \<Rightarrow> string \<Rightarrow> string \<Rightarrow> string" where
  "vmess_line json_loads template rep =
     (case vmess_try json_loads template rep of
        Inr line \<Rightarrow> line
      | Inl e \<Rightarrow> ''vmess://'' @ b64encode (str_replace ''vk.com'' rep template))"

fun make_vmess_lines :: "loads \<Rightarrow> string \<Rightarrow> string list \<Rightarrow> string list" where
  "make_vmess_lines json_loads template [] = []"
| "make_vmess_lines json_loads template (rep # replacements) =
     vmess_line json_loads template rep # make_vmess_lines json_loads template replacements"

definition vless_try :: "loads \<Rightarrow> string \<Rightarrow> string \<Rightarrow> error + string" where
  "vless_try json_loads template rep =
     (case json_loads template of
        None \<Rightarrow> Inl JSONDecodeError
      | Some template_obj \<Rightarrow>
          then_do (vless_substitute template_obj rep) encode_vless_url)"

text \<open>
  \<open>make_vless_lines\<close> gives the lines it appended and, second, the errors it printed: a
  substitution whose body raises is reported and gives no line.
\<close>

fun make_vless_lines :: "loads \<Rightarrow> string \<Rightarrow> string list \<Rightarrow> string list \<times> error list" where
  "make_vless_lines json_loads template [] = ([], [])"
| "make_vless_lines json_loads template (rep # replacements) =
     (let (out, printed) = make_vless_lines json_loads template replacements
      in case vless_try json_loads template rep of
           Inr vless_url \<Rightarrow> (vless_url # out, printed)
         | Inl e \<Rightarrow> (out, e # printed))"

text \<open>
  \<open>make_proxy_lines\<close> reads the scheme off the template: \<^verbatim>\<open>template_obj.get("_type",
  "vmess")\<close> when the template parses to a dictionary, and otherwise (the parser or
  \<^verbatim>\<open>.get\<close> raised) the prefix of the text.
\<close>

definition proxy_type :: "loads \<Rightarrow> string \<Rightarrow> pyval" where
  "proxy_type json_loads template =
     (case json_loads template of
        Some (PDict d) \<Rightarrow> dict_get d ''_type'' (PStr ''vmess'')
      | _ \<Rightarrow> if startswith template ''vless://'' then PStr ''vless'' else PStr ''vmess'')"

definition make_proxy_lines :: "loads \<Rightarrow> string \<Rightarrow> string list \<Rightarrow> string list" where
  "make_proxy_lines json_loads template replacements =
     (if proxy_type json_loads template = PStr ''vmess''
      then make_vmess_lines json_loads template replacements
      else fst (make_vless_lines json_loads template replacements))"

section \<open>A sample template\<close>

text \<open>
  A normalized scheme-B record as the decode pass leaves it in the template file, cut to the
  fields that are not empty, and a parser that knows the text \<^verbatim>\<open>T\<close> as this record. They
  are the concrete inputs at which the theorems on line generation are instantiated.
\<close>

definition sample_vless_template :: pydict where
  "sample_vless_template =
     [(''add'', PStr ''h.example''), (''port'', PStr ''443''), (''id'', PStr ''u''),
      (''ps'', PStr ''Node''), (''type'', PStr ''tcp''), (''sni'', PStr ''old.com''),
      (''host'', PStr ''old.com''), (''_type'', PStr ''vless'')]"

definition sample_loads :: loads where
  "sample_loads s = (if s = ''T'' then Some (PDict sample_vless_template) else None)"

text \<open>
  The scheme-A template of scenario C of the specification, with \<^verbatim>\<open>sni\<close>, \<^verbatim>\<open>host\<close>
  and \<^verbatim>\<open>ps\<close> and without \<^verbatim>\<open>type\<close>, and a parser that knows the text \<^verbatim>\<open>C\<close> as it.
\<close>

definition sample_vmess_template :: pydict where
  "sample_vmess_template =
     [(''sni'', PStr ''old.com''), (''host'', PStr ''old.com''), (''ps'', PStr ''Node'')]"

definition sample_vmess_loads :: loads where
  "sample_vmess_loads s = (if s = ''C'' then Some (PDict sample_vmess_template) else None)"

section \<open>The codec of scheme B: decoding\<close>

subsection \<open>Splitting strings\<close>

text \<open>\<^verbatim>\<open>s.partition(c)\<close> and \<^verbatim>\<open>s.rpartition(c)\<close>, \<open>None\<close> when \<open>c\<close> does not occur.\<close>

definition partition_at :: "char \<Rightarrow> string \<Rightarrow> (string \<times> string) option" where
  "partition_at c s =
     (if c \<in> set s then Some (takeWhile (\<lambda>x. x \<noteq> c) s, tl (dropWhile (\<lambda>x. x \<noteq> c) s))
      else None)"

definition rpartition_at :: "char \<Rightarrow> string \<Rightarrow> (string \<times> string) option" where
  "rpartition_at c s =
     (if c \<in> set s
      then Some (rev (tl (dropWhile (\<lambda>x. x \<noteq> c) (rev s))), rev (takeWhile (\<lambda>x. x \<noteq> c) (rev s)))
      else None)"

text \<open>\<^verbatim>\<open>s.split(c)\<close>\<close>

fun split_on :: "char \<Rightarrow> string \<Rightarrow> string list" where
  "split_on c [] = [[]]"
| "split_on c (x # xs) =
     (if x = c then [] # split_on c xs
      else (case split_on c xs of y # ys \<Rightarrow> (x # y) # ys | [] \<Rightarrow> [[x]]))"

subsection \<open>Percent-decoding\<close>

definition is_hex :: "char \<Rightarrow> bool" where
  "is_hex c = (c \<in> set ''0123456789ABCDEFabcdef'')"

definition hex_val :: "char \<Rightarrow> nat" where
  "hex_val c =
     (let n = (of_char c :: nat) in
      if 48 \<le> n \<and> n \<le> 57 then n - 48
      else if 65 \<le> n \<and> n \<le> 70 then n - 55
      else n - 87)"

text \<open>
  \<^verbatim>\<open>unquote_to_bytes\<close>: a percent sign followed by two hexadecimal digits is the byte
  they write; any other percent sign stays.
\<close>

fun percent_decode :: "string \<Rightarrow> string" where
  "percent_decode [] = []"
| "percent_decode (c # s) =
     (if c = CHR ''%'' then
        (case s of
           h # l # s' \<Rightarrow>
             if is_hex h \<and> is_hex l then byte_char (16 * hex_val h + hex_val l) # percent_decode s'
             else c # percent_decode s
         | _ \<Rightarrow> c # percent_decode s)
      else c # percent_decode s)"

text \<open>
  \<^verbatim>\<open>unquote(s)\<close> with the encoding UTF-8 and the error handler \<^verbatim>\<open>replace\<close>. The
  library decodes each run of ASCII characters on its own; on the UTF-8 bytes of a string
  this is the decoding of the whole string, because a character outside ASCII starts with
  a byte that is not a continuation byte.
\<close>

definition unquote :: "string \<Rightarrow> string" where
  "unquote s = (if CHR ''%'' \<notin> set s then s else utf8_replace (percent_decode s))"

definition plus_to_space :: "string \<Rightarrow> string" where
  "plus_to_space s = map (\<lambda>c. if c = CHR ''+'' then CHR '' '' else c) s"

subsection \<open>The query string\<close>

text \<open>
  \<^verbatim>\<open>parse_qsl\<close> with its defaults: the fields are separated by \<^verbatim>\<open>&\<close>; an empty field, a
  field without \<^verbatim>\<open>=\<close> and a field with an empty value are left out.
\<close>

definition parse_field :: "string \<Rightarrow> (string \<times> string) list" where
  "parse_field name_value =
     (if name_value = [] then []
      else (case partition_at CHR ''='' name_value of
              None \<Rightarrow> []
            | Some (n, v) \<Rightarrow>
                if v \<noteq> [] then [(unquote (plus_to_space n), unquote (plus_to_space v))] else []))"

definition parse_qsl :: "string \<Rightarrow> (string \<times> string) list" where
  "parse_qsl qs = concat (map parse_field (split_on CHR ''&'' qs))"

text \<open>\<^verbatim>\<open>parse_qs\<close>: the values of a name are collected in a list, the names in the order of
  their first occurrence.\<close>

definition parse_qs :: "string \<Rightarrow> (string \<times> string list) list" where
  "parse_qs qs =
     foldl (\<lambda>res nv. AList.update (fst nv)
                       (case map_of res (fst nv) of Some vs \<Rightarrow> vs @ [snd nv] | None \<Rightarrow> [snd nv]) res)
           [] (parse_qsl qs)"

subsection \<open>\<^verbatim>\<open>urlsplit\<close> and the parts of the network location\<close>

record split_result =
  scheme :: string
  netloc :: string
  url_path :: string
  query :: string
  fragment :: string

definition is_scheme_char :: "char \<Rightarrow> bool" where
  "is_scheme_char c =
     (c \<in> set ''abcdefghijklmnopqrstuvwxyzABCDEFGHIJKLMNOPQRSTUVWXYZ0123456789+-.'')"

definition is_ascii_alpha :: "char \<Rightarrow> bool" where
  "is_ascii_alpha c = (c \<in> set ''abcdefghijklmnopqrstuvwxyzABCDEFGHIJKLMNOPQRSTUVWXYZ'')"

definition is_delim :: "char \<Rightarrow> bool" where
  "is_delim c = (c = CHR ''/'' \<or> c = CHR ''?'' \<or> c = CHR ''#'')"

text \<open>
  Three things that \<^verbatim>\<open>urllib.parse\<close> does depend on the version of the library and on
  the Unicode tables, and are not defined here. The functions that need them take them as
  the argument \<open>lib\<close>, and what is proved holds for every \<open>lib\<close>:
  \<^item> \<open>bracketed_ok lib net\<close>: a network location with both square brackets passes the
    checks of the library (the place of the brackets, and the text between them as an
    IPv6 or IPvFuture address);
  \<^item> \<open>nfkc_ok lib net\<close>: a network location outside ASCII passes the check of its NFKC
    normal form;
  \<^item> \<open>lower_non_ascii lib s\<close>: \<^verbatim>\<open>s.lower()\<close> for a string \<open>s\<close> outside ASCII.
  A network location in ASCII without square brackets needs none of them.
\<close>

record urllib =
  bracketed_ok :: "string \<Rightarrow> bool"
  nfkc_ok :: "string \<Rightarrow> bool"
  lower_non_ascii :: "string \<Rightarrow> string"

text \<open>
  \<^verbatim>\<open>urlsplit(url)\<close> as in CPython 3.11 and later: leading control characters and spaces
  are stripped and every tab, carriage return and line feed is removed; the scheme is what
  stands before the first colon when it starts with a letter and has scheme characters
  only; the network location follows \<^verbatim>\<open>//\<close> up to the first of \<^verbatim>\<open>/ ? #\<close>; the fragment
  follows the first \<^verbatim>\<open>#\<close> and the query the first \<^verbatim>\<open>?\<close> before it. \<^verbatim>\<open>ValueError\<close> is
  raised for a network location with one kind of square bracket only, for one with both
  that fails the checks of the library, and for one outside ASCII that fails the check of
  its normal form.
\<close>

definition urlsplit :: "urllib \<Rightarrow> string \<Rightarrow> error + split_result" where
  "urlsplit lib url0 =
     (let url = dropWhile (\<lambda>c. (of_char c :: nat) \<le> 0x20) url0;
          url = filter (\<lambda>c. c \<noteq> CHR 0x09 \<and> c \<noteq> CHR 0x0D \<and> c \<noteq> CHR 0x0A) url;
          (sch, url) =
            (case partition_at CHR '':'' url of
               Some (pre, post) \<Rightarrow>
                 if pre \<noteq> [] \<and> is_ascii_alpha (hd pre) \<and> list_all is_scheme_char pre
                 then (lower pre, post) else ([], url)
             | None \<Rightarrow> ([], url));
          (net, url) =
            (if take 2 url = ''//''
             then (takeWhile (\<lambda>c. \<not> is_delim c) (drop 2 url),
                   dropWhile (\<lambda>c. \<not> is_delim c) (drop 2 url))
             else ([], url));
          (url, frag) =
            (case partition_at CHR ''#'' url of Some (u, f) \<Rightarrow> (u, f) | None \<Rightarrow> (url, []));
          (url, qry) =
            (case partition_at CHR ''?'' url of Some (u, q) \<Rightarrow> (u, q) | None \<Rightarrow> (url, []))
      in if (CHR ''['' \<in> set net \<and> CHR '']'' \<notin> set net)
            \<or> (CHR '']'' \<in> set net \<and> CHR ''['' \<notin> set net)
         then Inl ValueError
         else if CHR ''['' \<in> set net \<and> \<not> bracketed_ok lib net then Inl ValueError
         else if \<not> is_ascii net \<and> \<not> nfkc_ok lib net then Inl ValueError
         else Inr \<lparr>scheme = sch, netloc = net, url_path = url, query = qry, fragment = frag\<rparr>)"

text \<open>\<^verbatim>\<open>parsed.username\<close>: \<^verbatim>\<open>None\<close> without an \<^verbatim>\<open>@\<close>.\<close>

definition username :: "string \<Rightarrow> pyval" where
  "username net =
     (case rpartition_at CHR ''@'' net of
        Some (userinfo, hostinfo) \<Rightarrow> PStr (takeWhile (\<lambda>c. c \<noteq> CHR '':'') userinfo)
      | None \<Rightarrow> PNone)"

text \<open>The pair of \<^verbatim>\<open>_hostinfo\<close>: the host and the text of the port.\<close>

definition hostinfo :: "string \<Rightarrow> string \<times> string" where
  "hostinfo net =
     (let hinfo = (case rpartition_at CHR ''@'' net of Some (u, h) \<Rightarrow> h | None \<Rightarrow> net)
      in case partition_at CHR ''['' hinfo of
           Some (before, bracketed) \<Rightarrow>
             (case partition_at CHR '']'' bracketed of
                Some (h, rest) \<Rightarrow>
                  (h, case partition_at CHR '':'' rest of Some (a, p) \<Rightarrow> p | None \<Rightarrow> [])
              | None \<Rightarrow> (bracketed, []))
         | None \<Rightarrow>
             (case partition_at CHR '':'' hinfo of Some (h, p) \<Rightarrow> (h, p) | None \<Rightarrow> (hinfo, [])))"

text \<open>\<^verbatim>\<open>s.lower()\<close> for any string: the ASCII letters here, the others by the library.\<close>

definition str_lower :: "urllib \<Rightarrow> string \<Rightarrow> string" where
  "str_lower lib s = (if is_ascii s then lower s else lower_non_ascii lib s)"

text \<open>\<^verbatim>\<open>parsed.hostname\<close>: lowered up to a \<^verbatim>\<open>%\<close>; \<^verbatim>\<open>None\<close> when it is empty.\<close>

definition hostname :: "urllib \<Rightarrow> string \<Rightarrow> pyval" where
  "hostname lib net =
     (let h = fst (hostinfo net)
      in if h = [] then PNone
         else PStr (str_lower lib (takeWhile (\<lambda>c. c \<noteq> CHR ''%'') h)
                    @ dropWhile (\<lambda>c. c \<noteq> CHR ''%'') h))"

definition is_digit :: "char \<Rightarrow> bool" where
  "is_digit c = (48 \<le> (of_char c :: nat) \<and> (of_char c :: nat) \<le> 57)"

definition nat_of_digits :: "string \<Rightarrow> nat" where
  "nat_of_digits s = foldl (\<lambda>a c. 10 * a + ((of_char c :: nat) - 48)) 0 s"

text \<open>
  \<^verbatim>\<open>parsed.port\<close>: \<^verbatim>\<open>None\<close> when there is no port, \<^verbatim>\<open>ValueError\<close> when the port is not
  made of ASCII digits or is above 65535.
\<close>

definition port_of :: "string \<Rightarrow> error + pyval" where
  "port_of net =
     (let p = snd (hostinfo net)
      in if p = [] then Inr PNone
         else if list_all is_digit p \<and> nat_of_digits p \<le> 65535 then Inr (PInt (int (nat_of_digits p)))
         else Inl ValueError)"

subsection \<open>\<open>parse_vless_url\<close>\<close>

text \<open>The loop \<^verbatim>\<open>result[key] = value[0] if len(value) == 1 else value\<close>.\<close>

definition merge_query :: "(string \<times> string list) list \<Rightarrow> pydict \<Rightarrow> pydict" where
  "merge_query parsed_query result =
     foldl (\<lambda>res kv. AList.update (fst kv)
                       (case snd kv of [v] \<Rightarrow> PStr v | vs \<Rightarrow> PList (map PStr vs)) res)
           result parsed_query"

definition parse_vless_url :: "urllib \<Rightarrow> string \<Rightarrow> error + pydict" where
  "parse_vless_url lib url =
     then_do (urlsplit lib url) (\<lambda>parsed.
     then_do (port_of (netloc parsed)) (\<lambda>port.
       Inr (merge_query (parse_qs (query parsed))
              [(''id'', username (netloc parsed)),
               (''add'', hostname lib (netloc parsed)),
               (''port'', PStr (py_str port)),
               (''ps'', PStr (fragment parsed))])))"

section \<open>The codec of scheme A: decoding\<close>

text \<open>The value of a character of the base64 alphabet.\<close>

definition b64_index :: "char \<Rightarrow> nat option" where
  "b64_index c =
     (let n = (of_char c :: nat) in
      if 65 \<le> n \<and> n \<le> 90 then Some (n - 65)
      else if 97 \<le> n \<and> n \<le> 122 then Some (n - 71)
      else if 48 \<le> n \<and> n \<le> 57 then Some (n + 4)
      else if n = 43 then Some 62
      else if n = 47 then Some 63
      else None)"

definition emit :: "char \<Rightarrow> error + string \<Rightarrow> error + string" where
  "emit b r = (case r of Inl e \<Rightarrow> Inl e | Inr bs \<Rightarrow> Inr (b # bs))"

text \<open>
  \<^verbatim>\<open>binascii.a2b_base64\<close> in its lenient mode, as \<^verbatim>\<open>base64.b64decode\<close> calls it
  (CPython 3.11 and later). The state is the position \<open>quad_pos\<close> in the group of four
  characters, the bits left over in \<open>leftchar\<close> and the count \<open>pads\<close> of padding
  characters seen since the last data character. A character outside the alphabet is
  skipped; padding that completes a group ends the decoding; at the end of the input an
  unfinished group is an error.
\<close>

fun a2b_base64 :: "nat \<Rightarrow> nat \<Rightarrow> nat \<Rightarrow> string \<Rightarrow> error + string" where
  "a2b_base64 quad_pos leftchar pads [] = (if quad_pos \<noteq> 0 then Inl Base64Error else Inr [])"
| "a2b_base64 quad_pos leftchar pads (c # s) =
     (if c = CHR ''='' then
        (if 2 \<le> quad_pos \<and> 4 \<le> quad_pos + (pads + 1) then Inr []
         else a2b_base64 quad_pos leftchar (if 2 \<le> quad_pos then pads + 1 else pads) s)
      else
        (case b64_index c of
           None \<Rightarrow> a2b_base64 quad_pos leftchar pads s
         | Some this_ch \<Rightarrow>
             if quad_pos = 0 then a2b_base64 1 this_ch 0 s
             else if quad_pos = 1 then
               emit (byte_char (leftchar * 4 + this_ch div 16)) (a2b_base64 2 (this_ch mod 16) 0 s)
             else if quad_pos = 2 then
               emit (byte_char (leftchar * 16 + this_ch div 4)) (a2b_base64 3 (this_ch mod 4) 0 s)
             else
               emit (byte_char (leftchar * 64 + this_ch)) (a2b_base64 0 0 0 s)))"

definition b64decode :: "string \<Rightarrow> error + string" where
  "b64decode s = a2b_base64 0 0 0 s"

section \<open>Decoding one line\<close>

definition decode_vmess_or_vless_line :: "urllib \<Rightarrow> loads \<Rightarrow> string \<Rightarrow> error + pydict" where
  "decode_vmess_or_vless_line lib json_loads line =
     (let s = strip line in
      if s = [] then Inl ValueError
      else if startswith s ''vmess://'' then
        (let s = drop (length ''vmess://'') s;
             pad = (4 - length s mod 4) mod 4;
             s = s @ replicate pad CHR ''=''
         in if \<not> is_ascii s then Inl UnicodeError
            else then_do (b64decode s) (\<lambda>raw.
                 if \<not> utf8_valid raw then Inl UnicodeError
                 else (case json_loads raw of
                         None \<Rightarrow> Inl JSONDecodeError
                       | Some (PDict obj) \<Rightarrow> Inr (AList.update ''_type'' (PStr ''vmess'') obj)
                       | Some _ \<Rightarrow> Inl TypeError)))
      else if startswith s ''vless://'' then
        then_do (parse_vless_url lib s) (\<lambda>obj. Inr (AList.update ''_type'' (PStr ''vless'') obj))
      else if startswith s ''{'' \<and> endswith s ''}'' then
        (case json_loads s of
           None \<Rightarrow> Inl JSONDecodeError
         | Some (PDict obj) \<Rightarrow>
             Inr (AList.update ''_type'' (dict_get obj ''_type'' (PStr ''vmess'')) obj)
         | Some _ \<Rightarrow> Inl AttributeError)
      else Inl ValueError)"

text \<open>A library for the closed examples, which have no brackets and are in ASCII.\<close>

definition sample_lib :: urllib where
  "sample_lib = \<lparr>bracketed_ok = (\<lambda>net. False), nfkc_ok = (\<lambda>net. True), lower_non_ascii = (\<lambda>s. s)\<rparr>"

section \<open>The batch decoder\<close>

text \<open>
  A file is the list of its lines, each the bytes between two line ends, and the file
  system maps a path to a file. The loop of \<open>decode_file_inplace\<close> carries the lines
  written to the temporary file, the three counters, and the diagnostics printed to the
  error stream, each the number of the line and the error that was caught.
\<close>

type_synonym filesystem = "string \<Rightarrow> string list option"

record decode_state =
  tmp_lines :: "string list"
  written :: nat
  vmess_count :: nat
  vless_count :: nat
  printed :: "(nat \<times> error) list"

definition initial_state :: decode_state where
  "initial_state = \<lparr>tmp_lines = [], written = 0, vmess_count = 0, vless_count = 0, printed = []\<rparr>"

text \<open>
  The body of the loop for the line \<open>line\<close> with number \<open>idx\<close>. Inside the \<^verbatim>\<open>try\<close> the
  line is decoded, normalized and serialized, the counter of its scheme is incremented, and
  then \<^verbatim>\<open>tmp.write\<close> encodes the text: on a lone surrogate it raises
  \<^verbatim>\<open>UnicodeEncodeError\<close>, nothing is written, and the \<^verbatim>\<open>except\<close> reports the line, with
  the counter of the scheme already incremented.
\<close>

definition decode_step :: "urllib \<Rightarrow> loads \<Rightarrow> nat \<Rightarrow> string \<Rightarrow> decode_state \<Rightarrow> decode_state" where
  "decode_step lib json_loads idx line st =
     (let s = strip line in
      if s = [] then st
      else (case decode_vmess_or_vless_line lib json_loads s of
              Inl e \<Rightarrow> st\<lparr>printed := printed st @ [(idx, e)]\<rparr>
            | Inr obj \<Rightarrow>
                (let norm = normalize_entry obj;
                     compact = json_dumps (PDict norm);
                     st = (if map_of norm ''_type'' = Some (PStr ''vmess'')
                           then st\<lparr>vmess_count := vmess_count st + 1\<rparr>
                           else st\<lparr>vless_count := vless_count st + 1\<rparr>)
                 in if utf8_valid compact
                    then st\<lparr>tmp_lines := tmp_lines st @ [compact], written := written st + 1\<rparr>
                    else st\<lparr>printed := printed st @ [(idx, UnicodeError)]\<rparr>)))"

fun decode_loop :: "urllib \<Rightarrow> loads \<Rightarrow> nat \<Rightarrow> string list \<Rightarrow> decode_state \<Rightarrow> decode_state" where
  "decode_loop lib json_loads idx [] st = st"
| "decode_loop lib json_loads idx (line # rest) st =
     decode_loop lib json_loads (idx + 1) rest (decode_step lib json_loads idx line st)"

text \<open>
  The states of the file system while the loop runs, one after each line: only the
  temporary file \<open>tmp_name\<close> changes.
\<close>

fun decode_trace ::
  "urllib \<Rightarrow> loads \<Rightarrow> string \<Rightarrow> filesystem \<Rightarrow> nat \<Rightarrow> string list \<Rightarrow> decode_state
   \<Rightarrow> filesystem list" where
  "decode_trace lib json_loads tmp_name fs idx [] st = []"
| "decode_trace lib json_loads tmp_name fs idx (line # rest) st =
     (let st' = decode_step lib json_loads idx line st
      in fs(tmp_name \<mapsto> tmp_lines st')
         # decode_trace lib json_loads tmp_name fs (idx + 1) rest st')"

text \<open>
  \<open>decode_file_inplace\<close>: without the source file the process exits with status 1.
  Otherwise a temporary file with the fresh name \<open>tmp_name\<close> is created and the source
  is read as UTF-8 text. The iteration over the file is outside the \<^verbatim>\<open>try\<close>: when a line
  is not well-formed UTF-8 it raises \<^verbatim>\<open>UnicodeDecodeError\<close>, the call ends with that
  error, \<^verbatim>\<open>os.replace\<close> is not reached and the source stays as it was. Otherwise the
  loop fills the temporary file and \<^verbatim>\<open>os.replace\<close> moves it over the source in one
  step; the result is the final file system and the final state of the loop.
\<close>

definition decode_file_inplace ::
  "urllib \<Rightarrow> loads \<Rightarrow> string \<Rightarrow> string \<Rightarrow> filesystem \<Rightarrow> error + filesystem \<times> decode_state" where
  "decode_file_inplace lib json_loads tmp_name path fs =
     (case fs path of
        None \<Rightarrow> Inl (SystemExit 1)
      | Some lines \<Rightarrow>
          if \<not> list_all utf8_valid lines then Inl UnicodeError
          else (let st = decode_loop lib json_loads 1 lines initial_state
                in Inr ((fs(tmp_name := None))(path \<mapsto> tmp_lines st), st)))"

text \<open>
  All the states of the file system that \<open>decode_file_inplace\<close> goes through when it
  returns, the last being the one after \<^verbatim>\<open>os.replace\<close>. When it ends with an error the
  source is never touched; how many lines the loop has seen before the reader fails depends
  on the buffer of the reader, and only the creation of the temporary file is listed.
\<close>

definition decode_file_states ::
  "urllib \<Rightarrow> loads \<Rightarrow> string \<Rightarrow> string \<Rightarrow> filesystem \<Rightarrow> filesystem list" where
  "decode_file_states lib json_loads tmp_name path fs =
     (case fs path of
        None \<Rightarrow> [fs]
      | Some lines \<Rightarrow>
          if \<not> list_all utf8_valid lines then [fs, fs(tmp_name \<mapsto> [])]
          else [fs, fs(tmp_name \<mapsto> [])]
               @ decode_trace lib json_loads tmp_name fs 1 lines initial_state
               @ [(fs(tmp_name := None))
                    (path \<mapsto> tmp_lines (decode_loop lib json_loads 1 lines initial_state))])"

text \<open>
  The \<^verbatim>\<open>try\<close> body as a whole, for a stripped line that is not blank: the text it writes,
  or the error it raises. \<open>line_output\<close> and \<open>line_diag\<close> are what one source line
  adds to the temporary file and to the diagnostics; a blank line adds nothing.
  \<open>loop_diags\<close> collects the diagnostics of a list of lines numbered from \<open>idx\<close>,
  \<open>line_ok\<close> says that the body completes on a line, \<open>written_line\<close> is the text it
  writes then, and \<open>line_counted\<close> says that the line reaches the counter of its scheme.
\<close>

definition try_body :: "urllib \<Rightarrow> loads \<Rightarrow> string \<Rightarrow> error + string" where
  "try_body lib json_loads s =
     then_do (decode_vmess_or_vless_line lib json_loads s) (\<lambda>obj.
       if utf8_valid (json_dumps (PDict (normalize_entry obj)))
       then Inr (json_dumps (PDict (normalize_entry obj)))
       else Inl UnicodeError)"

definition line_output :: "urllib \<Rightarrow> loads \<Rightarrow> string \<Rightarrow> string list" where
  "line_output lib json_loads line =
     (if strip line = [] then []
      else (case try_body lib json_loads (strip line) of Inl e \<Rightarrow> [] | Inr compact \<Rightarrow> [compact]))"

definition line_diag :: "urllib \<Rightarrow> loads \<Rightarrow> nat \<Rightarrow> string \<Rightarrow> (nat \<times> error) list" where
  "line_diag lib json_loads idx line =
     (if strip line = [] then []
      else (case try_body lib json_loads (strip line) of Inl e \<Rightarrow> [(idx, e)] | Inr compact \<Rightarrow> []))"

fun loop_diags :: "urllib \<Rightarrow> loads \<Rightarrow> nat \<Rightarrow> string list \<Rightarrow> (nat \<times> error) list" where
  "loop_diags lib json_loads idx [] = []"
| "loop_diags lib json_loads idx (l # ls) =
     line_diag lib json_loads idx l @ loop_diags lib json_loads (idx + 1) ls"

definition line_ok :: "urllib \<Rightarrow> loads \<Rightarrow> string \<Rightarrow> bool" where
  "line_ok lib json_loads line = (\<not> isl (try_body lib json_loads (strip line)))"

definition written_line :: "urllib \<Rightarrow> loads \<Rightarrow> string \<Rightarrow> string" where
  "written_line lib json_loads line = projr (try_body lib json_loads (strip line))"

definition line_counted :: "urllib \<Rightarrow> loads \<Rightarrow> string \<Rightarrow> bool" where
  "line_counted lib json_loads line =
     (strip line \<noteq> [] \<and> \<not> isl (decode_vmess_or_vless_line lib json_loads (strip line)))"

text \<open>
  A line that is a JSON object whose \<^verbatim>\<open>ps\<close> is the escape of the surrogate code point
  U+D800 (the byte \<open>0x5C\<close> is the backslash), and a parser that knows this text: the string
  it returns holds the lone surrogate, which cannot be encoded as UTF-8.
\<close>

definition surrogate_line :: string where
  "surrogate_line =
     ''{'' @ [CHR 0x22] @ ''ps'' @ [CHR 0x22] @ '':'' @ [CHR 0x22, CHR 0x5C] @ ''ud800''
     @ [CHR 0x22] @ ''}''"

definition sample_surrogate_loads :: loads where
  "sample_surrogate_loads s =
     (if s = surrogate_line then Some (PDict [(''ps'', PStr [CHR 0xED, CHR 0xA0, CHR 0x80])])
      else None)"

text \<open>
  A raw scheme-B record whose \<^verbatim>\<open>allowInsecure\<close> is the text \<^verbatim>\<open>false\<close>, its normalized
  form, and the line that \<open>encode_vless_url\<close> writes for it.
\<close>

definition sample_insecure_record :: pydict where
  "sample_insecure_record =
     [(''_type'', PStr ''vless''), (''id'', PStr ''u''), (''add'', PStr ''h.example''),
      (''port'', PInt 443), (''allowInsecure'', PStr ''false'')]"

definition sample_insecure_normalized :: pydict where
  "sample_insecure_normalized =
     [(''add'', PStr ''h.example''), (''port'', PStr ''443''), (''id'', PStr ''u''),
      (''ps'', PStr []), (''type'', PStr ''tcp''), (''encryption'', PStr ''none''),
      (''security'', PStr ''none''), (''sni'', PStr []), (''host'', PStr []),
      (''path'', PStr []), (''seed'', PStr []), (''fp'', PStr []), (''alpn'', PStr []),
      (''allowInsecure'', PInt 0), (''mode'', PStr []), (''pbk'', PStr []), (''sid'', PStr []),
      (''spx'', PStr []), (''pqv'', PStr []), (''ech'', PStr []), (''flow'', PStr []),
      (''_type'', PStr ''vless'')]"

definition sample_insecure_line :: string where
  "sample_insecure_line = ''vless://u@h.example:443?type=tcp&encryption=none&security=none''"

text \<open>
  A text that the syntax of a URL leaves as it is inside the network location: ASCII
  characters that are not white space, none of the delimiters \<^verbatim>\<open>/\<close>, \<^verbatim>\<open>?\<close>, \<^verbatim>\<open>#\<close> and
  no square bracket.
\<close>

definition plain :: "string \<Rightarrow> bool" where
  "plain s = list_all (\<lambda>c. solid c \<and> \<not> is_delim c \<and> c \<noteq> CHR ''['' \<and> c \<noteq> CHR '']'') s"


section \<open>What normalization computes\<close>

lemma map_of_coerce_field:
  "map_of (coerce_field k f d) k' = (if k' = k then map_option f (map_of d k) else map_of d k')"
  by (cases "map_of d k") (simp_all add: coerce_field_def update_conv')

lemma map_of_inject_defaults:
  "map_of (inject_defaults dfl out) k =
     (case map_of out k of Some v \<Rightarrow> Some v | None \<Rightarrow> map_of dfl k)"
  by (induction dfl out rule: inject_defaults.induct)
     (auto simp: has_key_def update_conv' split: option.splits)

lemma map_of_inject_empty:
  "map_of (inject_empty ks out) k =
     (case map_of out k of Some v \<Rightarrow> Some v
      | None \<Rightarrow> if k \<in> set ks then Some (PStr []) else None)"
  by (induction ks out rule: inject_empty.induct)
     (auto simp: has_key_def update_conv' split: option.splits)

lemma update_fresh: "k \<notin> fst ` set al \<Longrightarrow> AList.update k v al = al @ [(k, v)]"
  by (induction al) auto

lemma project_pipeline:
  "project wanted (inject_empty wanted (inject_defaults dfl
      (coerce_field ''allowInsecure'' (\<lambda>v. PInt (truthy_to_int v))
        (coerce_field ''port'' (\<lambda>v. PStr (py_str v)) d))))
   = map (\<lambda>k. (k, field_value dfl d k)) wanted"
  unfolding project_def dict_get_def field_value_def
  by (rule map_cong[OF refl])
     (auto simp: map_of_inject_empty map_of_inject_defaults map_of_coerce_field
           split: option.splits)

lemma normalize_vmess_entry_eq:
  "normalize_vmess_entry d =
     map (\<lambda>k. (k, field_value DEFAULTS_IF_MISSING_VMESS d k)) WANTED_ORDER_VMESS
     @ [(''_type'', PStr ''vmess'')]"
proof -
  have "''_type'' \<notin> fst ` set (map (\<lambda>k. (k, field_value DEFAULTS_IF_MISSING_VMESS d k)) WANTED_ORDER_VMESS)"
    by (simp add: WANTED_ORDER_VMESS_def)
  then show ?thesis
    unfolding normalize_vmess_entry_def Let_def project_pipeline by (simp add: update_fresh)
qed

lemma normalize_vless_entry_eq:
  "normalize_vless_entry d =
     map (\<lambda>k. (k, field_value DEFAULTS_IF_MISSING_VLESS d k)) WANTED_ORDER_VLESS
     @ [(''_type'', PStr ''vless'')]"
proof -
  have "''_type'' \<notin> fst ` set (map (\<lambda>k. (k, field_value DEFAULTS_IF_MISSING_VLESS d k)) WANTED_ORDER_VLESS)"
    by (simp add: WANTED_ORDER_VLESS_def)
  then show ?thesis
    unfolding normalize_vless_entry_def Let_def project_pipeline by (simp add: update_fresh)
qed

lemma map_of_normalized:
  "k \<in> set ks \<Longrightarrow> map_of (map (\<lambda>k. (k, f k)) ks @ rest) k = Some (f k)"
  by (induction ks) auto

lemma map_of_normalized_rest:
  "k \<notin> set ks \<Longrightarrow> map_of (map (\<lambda>k. (k, f k)) ks @ rest) k = map_of rest k"
  by (induction ks) auto

lemma truthy_to_int_nonzero: "truthy_to_int v \<noteq> 0 \<Longrightarrow> truthy_to_int v = 1"
  by (cases v) (simp_all add: Let_def split: if_splits)

lemma field_value_idem:
  assumes n: "map_of n k = Some (field_value dfl d k)"
    and ai: "map_of dfl ''allowInsecure'' = Some (PInt 1)"
    and port: "map_of dfl ''port'' = None"
  shows "field_value dfl n k = field_value dfl d k"
proof -
  consider (a) "k = ''allowInsecure''" | (p) "k = ''port''"
    | (o) "k \<noteq> ''allowInsecure''" "k \<noteq> ''port''"
    by blast
  then show ?thesis
  proof cases
    case a
    have "field_value dfl n k = PInt (truthy_to_int (field_value dfl d k))"
      using a n by (simp add: field_value_def[of dfl n])
    also have "\<dots> = field_value dfl d k"
      using a ai by (cases "map_of d ''allowInsecure''")
        (simp_all add: field_value_def truthy_to_int_nonzero)
    finally show ?thesis .
  next
    case p
    have "field_value dfl n k = PStr (py_str (field_value dfl d k))"
      using p n by (simp add: field_value_def[of dfl n])
    also have "\<dots> = field_value dfl d k"
      using p port by (cases "map_of d ''port''") (simp_all add: field_value_def)
    finally show ?thesis .
  next
    case o
    then show ?thesis
      using n by (simp add: field_value_def[of dfl n])
  qed
qed

lemma normalize_vmess_entry_idem:
  "normalize_vmess_entry (normalize_vmess_entry d) = normalize_vmess_entry d"
proof -
  let ?n = "normalize_vmess_entry d"
  have "field_value DEFAULTS_IF_MISSING_VMESS ?n k = field_value DEFAULTS_IF_MISSING_VMESS d k"
    if "k \<in> set WANTED_ORDER_VMESS" for k
  proof (rule field_value_idem)
    show "map_of ?n k = Some (field_value DEFAULTS_IF_MISSING_VMESS d k)"
      unfolding normalize_vmess_entry_eq using that by (rule map_of_normalized)
  qed (simp_all add: DEFAULTS_IF_MISSING_VMESS_def)
  then have "map (\<lambda>k. (k, field_value DEFAULTS_IF_MISSING_VMESS ?n k)) WANTED_ORDER_VMESS
      = map (\<lambda>k. (k, field_value DEFAULTS_IF_MISSING_VMESS d k)) WANTED_ORDER_VMESS"
    by simp
  then show ?thesis
    using normalize_vmess_entry_eq[of ?n] normalize_vmess_entry_eq[of d] by simp
qed

lemma normalize_vless_entry_idem:
  "normalize_vless_entry (normalize_vless_entry d) = normalize_vless_entry d"
proof -
  let ?n = "normalize_vless_entry d"
  have "field_value DEFAULTS_IF_MISSING_VLESS ?n k = field_value DEFAULTS_IF_MISSING_VLESS d k"
    if "k \<in> set WANTED_ORDER_VLESS" for k
  proof (rule field_value_idem)
    show "map_of ?n k = Some (field_value DEFAULTS_IF_MISSING_VLESS d k)"
      unfolding normalize_vless_entry_eq using that by (rule map_of_normalized)
  qed (simp_all add: DEFAULTS_IF_MISSING_VLESS_def)
  then have "map (\<lambda>k. (k, field_value DEFAULTS_IF_MISSING_VLESS ?n k)) WANTED_ORDER_VLESS
      = map (\<lambda>k. (k, field_value DEFAULTS_IF_MISSING_VLESS d k)) WANTED_ORDER_VLESS"
    by simp
  then show ?thesis
    using normalize_vless_entry_eq[of ?n] normalize_vless_entry_eq[of d] by simp
qed

lemma type_of_normalize_vless: "map_of (normalize_vless_entry d) ''_type'' = Some (PStr ''vless'')"
  unfolding normalize_vless_entry_eq
  by (subst map_of_normalized_rest) (simp_all add: WANTED_ORDER_VLESS_def)

lemma type_of_normalize_vmess: "map_of (normalize_vmess_entry d) ''_type'' = Some (PStr ''vmess'')"
  unfolding normalize_vmess_entry_eq
  by (subst map_of_normalized_rest) (simp_all add: WANTED_ORDER_VMESS_def)

lemma keys_normalize_vmess:
  "map fst (normalize_vmess_entry d) = WANTED_ORDER_VMESS @ [''_type'']"
  by (simp add: normalize_vmess_entry_eq comp_def)

lemma keys_normalize_vless:
  "map fst (normalize_vless_entry d) = WANTED_ORDER_VLESS @ [''_type'']"
  by (simp add: normalize_vless_entry_eq comp_def)

section \<open>The loops of the substitution engine\<close>

lemma make_vmess_lines_map: "make_vmess_lines jl t reps = map (vmess_line jl t) reps"
  by (induction reps) simp_all



lemma make_vless_lines_all_ok:
  "list_all (\<lambda>rep. \<not> isl (vless_try jl t rep)) reps \<Longrightarrow>
   make_vless_lines jl t reps = (map (\<lambda>rep. projr (vless_try jl t rep)) reps, [])"
  by (induction reps) (auto split: sum.splits prod.splits)

lemma vmess_substitute_host:
  assumes "has_key d ''host''"
  shows "\<exists>d'. vmess_substitute (PDict d) rep = Inr (PDict d') \<and> map_of d' ''host'' = Some (PStr rep)"
  using assms
  by (auto simp: vmess_substitute_def set_if_present_def label_with_def then_do_def has_key_def
      update_conv' split: option.splits)

lemma vless_substitute_host:
  assumes "has_key d ''host''" "map_of d ''type'' = Some t"
  shows "\<exists>d'. vless_substitute (PDict d) rep = Inr (PDict d')
          \<and> map_of d' ''host'' =
              (if t \<noteq> PStr ''xhttp'' \<and> t \<noteq> PStr ''ws'' then Some (PStr rep) else map_of d ''host'')"
  using assms
  by (auto simp: vless_substitute_def vless_set_host_def set_if_present_def label_with_def
      then_do_def has_key_def update_conv' split: option.splits)

lemma vless_substitute_no_type:
  assumes "has_key d ''host''" "map_of d ''type'' = None"
  shows "vless_substitute (PDict d) rep = Inl (KeyError ''type'')"
  using assms
  by (auto simp: vless_substitute_def vless_set_host_def set_if_present_def label_with_def
      then_do_def has_key_def update_conv' split: option.splits)

lemmas substitute_eval =
  vless_substitute_def vmess_substitute_def vless_set_host_def set_if_present_def
  label_with_def then_do_def has_key_def

lemmas encode_vless_eval =
  encode_vless_url_def urlunparse_vless_def urlencode_def query_params_def
  VLESS_QUERY_PARAMS_def NON_QUERY_FIELDS_def WANTED_ORDER_VLESS_def dict_get_def join_def
  quote_plus_def quote_plus_char_def is_always_safe_def hex_digit_upper_def then_do_def
  encodable_def

lemma sample_vless_try:
  "vless_try sample_loads ''T'' ''a.com''
     = Inr ''vless://u@h.example:443?type=tcp&sni=a.com&host=a.com#Node (a.com)''"
  by (simp add: vless_try_def sample_loads_def sample_vless_template_def substitute_eval
      encode_vless_eval)

section \<open>Evaluation of the decoder on concrete lines\<close>

lemmas strip_eval = strip_def rstrip_def lstrip.simps rstrip_rev.simps is_space_def

lemmas url_eval =
  urlsplit_def partition_at_def rpartition_at_def is_ascii_alpha_def is_scheme_char_def lower_def
  lower_char_def is_delim_def username_def hostname_def hostinfo_def port_of_def is_digit_def
  nat_of_digits_def str_int_def dec_nat.simps parse_qs_def parse_qsl_def parse_field_def
  unquote_def plus_to_space_def merge_query_def then_do_def str_lower_def is_ascii_def

lemmas normalize_vless_eval =
  normalize_entry_def normalize_vless_entry_eq field_value_def WANTED_ORDER_VLESS_def
  DEFAULTS_IF_MISSING_VLESS_def

lemma scenario_b_parse:
  "parse_vless_url lib ''vless://user-id@host.example:8443?security=tls&sni=sni.example#My%20Label'' =
     Inr [(''id'', PStr ''user-id''), (''add'', PStr ''host.example''), (''port'', PStr ''8443''),
          (''ps'', PStr ''My%20Label''), (''security'', PStr ''tls''),
          (''sni'', PStr ''sni.example'')]"
  by (simp add: parse_vless_url_def url_eval)

lemma scenario_b_decode:
  "decode_vmess_or_vless_line lib json_loads
     ''vless://user-id@host.example:8443?security=tls&sni=sni.example#My%20Label'' =
     Inr [(''id'', PStr ''user-id''), (''add'', PStr ''host.example''), (''port'', PStr ''8443''),
          (''ps'', PStr ''My%20Label''), (''security'', PStr ''tls''),
          (''sni'', PStr ''sni.example''), (''_type'', PStr ''vless'')]"
  by (simp add: decode_vmess_or_vless_line_def strip_eval startswith_def scenario_b_parse
      then_do_def)

section \<open>The query parameters of scheme B\<close>

lemma keys_query_params_aux:
  "map fst (concat (map (\<lambda>key. case map_of config key of
                          Some v \<Rightarrow> if truthy v \<and> v \<noteq> PStr [] then [(key, v)] else []
                        | None \<Rightarrow> []) ks))
   = filter (\<lambda>k. case map_of config k of Some v \<Rightarrow> truthy v | None \<Rightarrow> False) ks"
  by (induction ks) (auto split: option.splits)

lemma keys_query_params:
  "map fst (query_params config)
   = filter (\<lambda>k. case map_of config k of Some v \<Rightarrow> truthy v | None \<Rightarrow> False) VLESS_QUERY_PARAMS"
  unfolding query_params_def by (rule keys_query_params_aux)

lemma map_of_normalize_vless:
  "k \<in> set WANTED_ORDER_VLESS \<Longrightarrow>
   map_of (normalize_vless_entry r) k = Some (field_value DEFAULTS_IF_MISSING_VLESS r k)"
  unfolding normalize_vless_entry_eq by (rule map_of_normalized)

lemma allowInsecure_zero_dropped:
  assumes "map_of r ''allowInsecure'' = Some v" "truthy_to_int v = 0"
  shows "''allowInsecure'' \<notin> set (map fst (query_params (normalize_vless_entry r)))"
proof -
  have "map_of (normalize_vless_entry r) ''allowInsecure'' = Some (PInt 0)"
    using assms by (simp add: map_of_normalize_vless WANTED_ORDER_VLESS_def field_value_def)
  then show ?thesis
    by (simp add: keys_query_params)
qed

lemma sample_insecure_normalize:
  "normalize_entry sample_insecure_record = sample_insecure_normalized"
  by (simp add: sample_insecure_record_def sample_insecure_normalized_def normalize_vless_eval
      strip_eval lower_def lower_char_def str_int_def dec_nat.simps)

lemma sample_insecure_encode:
  "encode_vless_url (PDict sample_insecure_normalized) = Inr sample_insecure_line"
  by (simp add: sample_insecure_normalized_def sample_insecure_line_def encode_vless_eval)

lemma sample_insecure_decode:
  "decode_vmess_or_vless_line lib json_loads sample_insecure_line
   = Inr [(''id'', PStr ''u''), (''add'', PStr ''h.example''), (''port'', PStr ''443''),
          (''ps'', PStr []), (''type'', PStr ''tcp''), (''encryption'', PStr ''none''),
          (''security'', PStr ''none''), (''_type'', PStr ''vless'')]"
  by (simp add: sample_insecure_line_def decode_vmess_or_vless_line_def strip_eval startswith_def
      parse_vless_url_def url_eval)

section \<open>Stripping whitespace\<close>

lemma ws_len_space: "is_space c \<Longrightarrow> ws_len (c # s) = 1"
  by (cases s rule: ws_len.cases) (simp_all add: Let_def)

lemma ws_len_rev_space: "is_space c \<Longrightarrow> ws_len_rev (c # s) = 1"
  by (cases s rule: ws_len_rev.cases) (simp_all add: Let_def)

lemma ws_len_solid: "solid c \<Longrightarrow> ws_len (c # s) = 0"
  by (cases s rule: ws_len.cases) (simp_all add: Let_def solid_def)

lemma ws_len_rev_solid: "solid c \<Longrightarrow> ws_len_rev (c # s) = 0"
  by (cases s rule: ws_len_rev.cases) (auto simp: Let_def solid_def)

lemma lstrip_spaces: "list_all is_space pre \<Longrightarrow> lstrip (pre @ s) = lstrip s"
proof (induction pre)
  case Nil
  then show ?case by simp
next
  case (Cons c pre)
  then have "ws_len ((c # pre) @ s) = 1" by (simp add: ws_len_space)
  then have "lstrip ((c # pre) @ s) = lstrip (pre @ s)"
    by (subst lstrip.simps) simp
  with Cons show ?case by simp
qed

lemma rstrip_rev_spaces: "list_all is_space pre \<Longrightarrow> rstrip_rev (pre @ s) = rstrip_rev s"
proof (induction pre)
  case Nil
  then show ?case by simp
next
  case (Cons c pre)
  then have "ws_len_rev ((c # pre) @ s) = 1" by (simp add: ws_len_rev_space)
  then have "rstrip_rev ((c # pre) @ s) = rstrip_rev (pre @ s)"
    by (subst rstrip_rev.simps) simp
  with Cons show ?case by simp
qed

lemma lstrip_solid: "solid c \<Longrightarrow> lstrip (c # s) = c # s"
  by (subst lstrip.simps) (simp add: ws_len_solid)

lemma rstrip_rev_solid: "solid c \<Longrightarrow> rstrip_rev (c # s) = c # s"
  by (subst rstrip_rev.simps) (simp add: ws_len_rev_solid)

lemma lstrip_Nil: "lstrip [] = []" by (subst lstrip.simps) simp
lemma rstrip_rev_Nil: "rstrip_rev [] = []" by (subst rstrip_rev.simps) simp

lemma strip_padded:
  assumes "list_all is_space pre" "list_all is_space post" "u \<noteq> []" "solid (hd u)" "solid (last u)"
  shows "strip (pre @ u @ post) = u"
proof -
  obtain c u' where u: "u = c # u'" using assms(3) by (cases u) auto
  obtain u'' d where u2: "u = u'' @ [d]" using assms(3) by (cases u rule: rev_cases) auto
  have c: "solid c" using assms(4) u by simp
  have d: "solid d" using assms(5) u2 by simp
  have "lstrip (pre @ u @ post) = u @ post"
    using assms(1) c by (simp add: lstrip_spaces u lstrip_solid)
  moreover have "rstrip (u @ post) = u"
  proof -
    have "rev (u @ post) = rev post @ d # rev u''" by (simp add: u2)
    moreover have "list_all is_space (rev post)" using assms(2) by (simp add: list_all_iff)
    ultimately have "rstrip_rev (rev (u @ post)) = d # rev u''"
      using d by (simp add: rstrip_rev_spaces rstrip_rev_solid)
    then show ?thesis by (simp add: rstrip_def u2)
  qed
  ultimately show ?thesis by (simp add: strip_def)
qed

lemma strip_all_space: "list_all is_space s \<Longrightarrow> strip s = []"
  using lstrip_spaces [of s "[]"] by (simp add: strip_def lstrip_Nil rstrip_def rstrip_rev_Nil)

lemma upper_solid: "c \<in> set ''ABCDEFGHIJKLMNOPQRSTUVWXYZ'' \<Longrightarrow> solid c"
  by (auto simp: solid_def is_space_def)

lemma solid_lower_char: "solid (lower_char c) \<Longrightarrow> solid c"
proof (cases "map_of (zip ''ABCDEFGHIJKLMNOPQRSTUVWXYZ'' ''abcdefghijklmnopqrstuvwxyz'') c")
  case None
  then show "solid (lower_char c) \<Longrightarrow> solid c" by (simp add: lower_char_def)
next
  case (Some d)
  then have "c \<in> set ''ABCDEFGHIJKLMNOPQRSTUVWXYZ''"
    by (meson map_of_SomeD set_zip_leftD)
  then show "solid (lower_char c) \<Longrightarrow> solid c" by (simp only: upper_solid)
qed

lemma word_solid:
  assumes "lower u \<in> set [''1'', ''true'', ''yes'', ''y'', ''on'']"
  shows "u \<noteq> [] \<and> solid (hd u) \<and> solid (last u)"
proof -
  have "list_all solid (lower u) \<and> lower u \<noteq> []"
    using assms by (auto simp: solid_def is_space_def)
  then have "list_all solid u \<and> u \<noteq> []"
    by (auto simp: lower_def list_all_iff solid_lower_char)
  then show ?thesis by (simp add: list_all_iff)
qed

lemma truthy_padded:
  assumes "list_all is_space pre" "list_all is_space post"
    and "lower u \<in> set [''1'', ''true'', ''yes'', ''y'', ''on'']"
  shows "truthy_to_int (PStr (pre @ u @ post)) = 1"
  using assms word_solid [OF assms(3)] by (simp add: strip_padded)

lemma truthy_padded_other:
  assumes "list_all is_space pre" "list_all is_space post"
    and "u = [] \<or> solid (hd u) \<and> solid (last u)"
    and "lower u \<notin> set [''1'', ''true'', ''yes'', ''y'', ''on'']"
  shows "truthy_to_int (PStr (pre @ u @ post)) = 0"
proof (cases "u = []")
  case True
  then have "strip (pre @ u @ post) = []"
    using assms(1,2) by (simp add: strip_all_space)
  then show ?thesis by (simp add: lower_def)
next
  case False
  then show ?thesis using assms by (simp add: strip_padded)
qed

section \<open>Lemmas on the batch decoder\<close>

text \<open>
  One pass of the loop of \<open>decode_file_inplace\<close> appends to the temporary file, to the
  printed diagnostics and to the counters what the line alone determines; the loop is the
  concatenation of the passes.
\<close>

lemma decode_step_tmp_lines:
  "tmp_lines (decode_step lib jl idx line st) = tmp_lines st @ line_output lib jl line"
  by (simp add: decode_step_def line_output_def try_body_def then_do_def Let_def split: sum.splits)

lemma decode_step_printed:
  "printed (decode_step lib jl idx line st) = printed st @ line_diag lib jl idx line"
  by (simp add: decode_step_def line_diag_def try_body_def then_do_def Let_def split: sum.splits)

lemma decode_step_written:
  "written (decode_step lib jl idx line st) = written st + length (line_output lib jl line)"
  by (simp add: decode_step_def line_output_def try_body_def then_do_def Let_def split: sum.splits)

lemma decode_step_counts:
  "vmess_count (decode_step lib jl idx line st) + vless_count (decode_step lib jl idx line st)
   = vmess_count st + vless_count st + (if line_counted lib jl line then 1 else 0)"
  by (simp add: decode_step_def line_counted_def Let_def split: sum.splits)

lemma decode_loop_tmp_lines:
  "tmp_lines (decode_loop lib jl idx lines st) = tmp_lines st @ concat (map (line_output lib jl) lines)"
  by (induction lines arbitrary: idx st) (simp_all add: decode_step_tmp_lines)

lemma decode_loop_written:
  "written (decode_loop lib jl idx lines st)
   = written st + length (concat (map (line_output lib jl) lines))"
  by (induction lines arbitrary: idx st) (simp_all add: decode_step_written)

lemma decode_loop_counts:
  "vmess_count (decode_loop lib jl idx lines st) + vless_count (decode_loop lib jl idx lines st)
   = vmess_count st + vless_count st + length (filter (line_counted lib jl) lines)"
  by (induction lines arbitrary: idx st) (simp_all add: decode_step_counts)

lemma decode_loop_printed:
  "printed (decode_loop lib jl idx lines st) = printed st @ loop_diags lib jl idx lines"
  by (induction lines arbitrary: idx st) (simp_all add: decode_step_printed)

lemma loop_diags_append:
  "loop_diags lib jl idx (xs @ ys)
   = loop_diags lib jl idx xs @ loop_diags lib jl (idx + length xs) ys"
  by (induction xs arbitrary: idx) simp_all

lemma decode_trace_path:
  "tmp_name \<noteq> path \<Longrightarrow> s \<in> set (decode_trace lib jl tmp_name fs idx lines st) \<Longrightarrow>
   s path = fs path"
  by (induction lines arbitrary: idx st) (auto simp: Let_def)

lemma decode_trace_Nil: "decode_trace lib jl tmp_name fs idx lines st = [] \<longleftrightarrow> lines = []"
  by (cases lines) (simp_all add: Let_def)

lemma decode_trace_last:
  "lines \<noteq> [] \<Longrightarrow>
   last (decode_trace lib jl tmp_name fs idx lines st)
   = fs(tmp_name \<mapsto> tmp_lines (decode_loop lib jl idx lines st))"
proof (induction lines arbitrary: idx st)
  case Nil
  then show ?case by simp
next
  case (Cons a rest)
  show ?case
  proof (cases "rest = []")
    case True
    then show ?thesis by (simp add: Let_def)
  next
    case False
    then show ?thesis using Cons.IH [OF False] by (simp add: Let_def decode_trace_Nil)
  qed
qed

lemma strip_Nil: "strip [] = []"
  by (simp add: strip_def rstrip_def lstrip.simps rstrip_rev.simps)

lemma decode_blank: "decode_vmess_or_vless_line lib jl [] = Inl ValueError"
  by (simp add: decode_vmess_or_vless_line_def strip_Nil)

lemma try_body_blank: "try_body lib jl [] = Inl ValueError"
  by (simp add: try_body_def decode_blank then_do_def)

lemma line_ok_counted: "line_ok lib jl line \<Longrightarrow> line_counted lib jl line"
  by (cases "strip line = []")
     (auto simp: line_ok_def line_counted_def try_body_def then_do_def decode_blank split: sum.splits)

lemma line_output_ok: "line_ok lib jl line \<Longrightarrow> line_output lib jl line = [written_line lib jl line]"
  by (cases "strip line = []")
     (auto simp: line_ok_def line_output_def written_line_def try_body_blank split: sum.splits)

lemma line_diag_ok: "line_ok lib jl line \<Longrightarrow> line_diag lib jl idx line = []"
  by (auto simp: line_ok_def line_diag_def split: sum.splits)

lemma outputs_all_ok:
  "list_all (line_ok lib jl) ls \<Longrightarrow> concat (map (line_output lib jl) ls) = map (written_line lib jl) ls"
  by (induction ls) (simp_all add: line_output_ok)

lemma counted_all_ok:
  "list_all (line_ok lib jl) ls \<Longrightarrow> filter (line_counted lib jl) ls = ls"
  by (induction ls) (simp_all add: line_ok_counted)

lemma diags_all_ok:
  "list_all (line_ok lib jl) ls \<Longrightarrow> loop_diags lib jl idx ls = []"
  by (induction ls arbitrary: idx) (simp_all add: line_diag_ok)

lemma line_output_bad:
  "try_body lib jl (strip line) = Inl e \<Longrightarrow> line_output lib jl line = []"
  by (simp add: line_output_def)

lemma line_diag_bad:
  "strip line \<noteq> [] \<Longrightarrow> try_body lib jl (strip line) = Inl e \<Longrightarrow>
   line_diag lib jl idx line = [(idx, e)]"
  by (simp add: line_diag_def)

text \<open>Sample lines of a source file, evaluated.\<close>

lemma sample_try1:
  \<open>try_body sample_lib jl (strip ''vless://u@h.example:443#A'') = Inr
     ''{"add":"h.example","port":"443","id":"u","ps":"A","type":"tcp","encryption":"none","security":"none","sni":"","host":"","path":"","seed":"","fp":"","alpn":"","allowInsecure":1,"mode":"","pbk":"","sid":"","spx":"","pqv":"","ech":"","flow":"","_type":"vless"}''\<close>
  by (simp add: try_body_def then_do_def decode_vmess_or_vless_line_def strip_eval
      startswith_def parse_vless_url_def url_eval normalize_entry_def normalize_vless_eval
      json_str_def json_escape_char_def join_def str_int_def dec_nat.simps)

lemma sample_try3:
  \<open>try_body sample_lib jl (strip ''vless://v@h.example:80'') = Inr
     ''{"add":"h.example","port":"80","id":"v","ps":"","type":"tcp","encryption":"none","security":"none","sni":"","host":"","path":"","seed":"","fp":"","alpn":"","allowInsecure":1,"mode":"","pbk":"","sid":"","spx":"","pqv":"","ech":"","flow":"","_type":"vless"}''\<close>
  by (simp add: try_body_def then_do_def decode_vmess_or_vless_line_def strip_eval
      startswith_def parse_vless_url_def url_eval normalize_entry_def normalize_vless_eval
      json_str_def json_escape_char_def join_def str_int_def dec_nat.simps)

lemma sample_line1: "line_ok sample_lib jl ''vless://u@h.example:443#A''"
  by (simp add: line_ok_def sample_try1)

lemma sample_line3: "line_ok sample_lib jl ''vless://v@h.example:80''"
  by (simp add: line_ok_def sample_try3)

lemma sample_written1:
  \<open>written_line sample_lib jl ''vless://u@h.example:443#A'' =
     ''{"add":"h.example","port":"443","id":"u","ps":"A","type":"tcp","encryption":"none","security":"none","sni":"","host":"","path":"","seed":"","fp":"","alpn":"","allowInsecure":1,"mode":"","pbk":"","sid":"","spx":"","pqv":"","ech":"","flow":"","_type":"vless"}''\<close>
  by (simp add: written_line_def sample_try1)

lemma sample_written3:
  \<open>written_line sample_lib jl ''vless://v@h.example:80'' =
     ''{"add":"h.example","port":"80","id":"v","ps":"","type":"tcp","encryption":"none","security":"none","sni":"","host":"","path":"","seed":"","fp":"","alpn":"","allowInsecure":1,"mode":"","pbk":"","sid":"","spx":"","pqv":"","ech":"","flow":"","_type":"vless"}''\<close>
  by (simp add: written_line_def sample_try3)

lemma sample_line2:
  "strip ''garbage'' \<noteq> []
   \<and> decode_vmess_or_vless_line sample_lib jl (strip ''garbage'') = Inl ValueError
   \<and> try_body sample_lib jl (strip ''garbage'') = Inl ValueError"
  by (simp add: try_body_def then_do_def decode_vmess_or_vless_line_def strip_eval
      startswith_def endswith_def)

lemma sample_surrogate_strip: "strip surrogate_line = surrogate_line"
  by (simp add: surrogate_line_def strip_eval)

lemma sample_surrogate_decode:
  "decode_vmess_or_vless_line sample_lib sample_surrogate_loads surrogate_line
   = Inr [(''ps'', PStr [CHR 0xED, CHR 0xA0, CHR 0x80]), (''_type'', PStr ''vmess'')]"
  unfolding decode_vmess_or_vless_line_def sample_surrogate_strip
  by (simp add: sample_surrogate_loads_def dict_get_def)
     (simp add: surrogate_line_def startswith_def endswith_def)

lemma sample_surrogate_line:
  "try_body sample_lib sample_surrogate_loads (strip surrogate_line) = Inl UnicodeError"
  unfolding sample_surrogate_strip try_body_def sample_surrogate_decode
  by (simp add: then_do_def normalize_entry_def normalize_vmess_entry_eq
      WANTED_ORDER_VMESS_def DEFAULTS_IF_MISSING_VMESS_def field_value_def json_str_def
      json_escape_char_def join_def str_int_def dec_nat.simps second_ok_def is_cont_def)

lemma sample_surrogate_valid:
  "strip surrogate_line \<noteq> [] \<and> utf8_valid surrogate_line"
  unfolding sample_surrogate_strip by (simp add: surrogate_line_def)

lemma sample_surrogate_counted: "line_counted sample_lib sample_surrogate_loads surrogate_line"
  unfolding line_counted_def sample_surrogate_strip sample_surrogate_decode
  by (simp add: surrogate_line_def)

section \<open>Lemmas on the codec of scheme B\<close>

text \<open>
  What the decoder reads back from a line that \<open>encode_vless_url\<close> wrote: the query string
  of \<^verbatim>\<open>urlencode\<close> has no delimiter, so when the network location has none either
  \<^verbatim>\<open>urlsplit\<close> finds the same network location and the same query, and the names of the
  parameters that \<^verbatim>\<open>parse_qs\<close> returns are names that the encoder wrote.
\<close>

subsection \<open>The query string\<close>

lemma hex_digit_upper_safe: "k < 16 \<Longrightarrow> is_always_safe (hex_digit_upper k)"
proof -
  assume "k < 16"
  then have "''0123456789ABCDEF'' ! k \<in> set ''0123456789ABCDEF''"
    by (intro nth_mem) simp
  then show ?thesis
    unfolding hex_digit_upper_def is_always_safe_def by auto
qed

lemma of_char_div_16: "(of_char c :: nat) div 16 < 16"
proof -
  have "(of_char c :: nat) < 256"
    by (metis of_char_mod_256 mod_less_divisor zero_less_numeral)
  then show ?thesis by arith
qed

lemma quote_plus_char_chars:
  "x \<in> set (quote_plus_char c) \<Longrightarrow> is_always_safe x \<or> x = CHR ''+'' \<or> x = CHR ''%''"
  unfolding quote_plus_char_def
  using hex_digit_upper_safe [OF of_char_div_16 [of c]]
        hex_digit_upper_safe [of "of_char c mod 16"]
  by (auto split: if_splits)

lemma quote_plus_chars:
  "x \<in> set (quote_plus s) \<Longrightarrow> is_always_safe x \<or> x = CHR ''+'' \<or> x = CHR ''%''"
  unfolding quote_plus_def using quote_plus_char_chars by auto

lemma always_safe_solid:
  "is_always_safe x \<Longrightarrow>
   solid x \<and> \<not> is_delim x \<and> x \<noteq> CHR ''&'' \<and> x \<noteq> CHR ''='' \<and> x \<noteq> CHR ''+'' \<and> x \<noteq> CHR ''%''"
  unfolding is_always_safe_def solid_def is_space_def is_delim_def by auto

lemma quote_plus_safe: "list_all is_always_safe s \<Longrightarrow> quote_plus s = s"
  by (induction s) (simp_all add: quote_plus_def quote_plus_char_def)

lemma split_on_nonempty: "split_on c s \<noteq> []"
  by (induction s) (auto split: list.splits)

lemma split_on_no_sep: "c \<notin> set x \<Longrightarrow> split_on c x = [x]"
  by (induction x) auto

lemma split_on_append:
  "c \<notin> set x \<Longrightarrow> split_on c (x @ c # rest) = x # split_on c rest"
  by (induction x) (auto split: list.splits)

lemma split_on_join:
  "\<forall>x \<in> set (y # ys). c \<notin> set x \<Longrightarrow> split_on c (join [c] (y # ys)) = y # ys"
proof (induction ys arbitrary: y)
  case Nil
  then show ?case by (simp add: join_def split_on_no_sep)
next
  case (Cons z zs)
  have "join [c] (y # z # zs) = y @ c # join [c] (z # zs)"
    by (simp add: join_def)
  then show ?case using Cons by (simp add: split_on_append)
qed

lemma partition_at_append:
  "c \<notin> set k \<Longrightarrow> partition_at c (k @ c # v) = Some (k, v)"
  by (induction k) (auto simp: partition_at_def)

lemma partition_at_none: "c \<notin> set k \<Longrightarrow> partition_at c k = None"
  by (simp add: partition_at_def)

lemma parse_field_kv:
  "CHR ''='' \<notin> set k \<Longrightarrow>
   fst ` set (parse_field (k @ ''='' @ v)) \<subseteq> {unquote (plus_to_space k)}"
  by (auto simp: parse_field_def partition_at_append)

lemma query_key_plain:
  "k \<in> set VLESS_QUERY_PARAMS \<Longrightarrow> list_all is_always_safe k"
  by (auto simp: VLESS_QUERY_PARAMS_def NON_QUERY_FIELDS_def WANTED_ORDER_VLESS_def
      is_always_safe_def)

lemma safe_unquote:
  "list_all is_always_safe k \<Longrightarrow> unquote (plus_to_space k) = k \<and> CHR ''='' \<notin> set k"
proof -
  assume a: "list_all is_always_safe k"
  then have "\<forall>x \<in> set k. x \<noteq> CHR ''+'' \<and> x \<noteq> CHR ''%'' \<and> x \<noteq> CHR ''=''"
    using always_safe_solid by (auto simp: list_all_iff)
  then have "plus_to_space k = k" "CHR ''%'' \<notin> set k" "CHR ''='' \<notin> set k"
    by (auto simp: plus_to_space_def map_idI)
  then show ?thesis by (simp add: unquote_def)
qed

lemma keys_foldl_update:
  "fst ` set (foldl (\<lambda>res nv. AList.update (fst nv) (g res nv) res) init xs)
   = fst ` set init \<union> fst ` set xs"
  by (induction xs arbitrary: init) (auto simp: dom_update)

lemma keys_parse_qs: "fst ` set (parse_qs qs) = fst ` set (parse_qsl qs)"
  unfolding parse_qs_def by (simp add: keys_foldl_update)

lemma keys_merge_query:
  "fst ` set (merge_query pq result) = fst ` set result \<union> fst ` set pq"
  unfolding merge_query_def by (simp add: keys_foldl_update)

lemma query_params_keys_subset:
  "fst ` set (query_params config) \<subseteq> set VLESS_QUERY_PARAMS"
  using keys_query_params [of config] by (metis filter_is_subset set_map)

lemma parse_qsl_urlencode:
  assumes "urlencode q = Inr qs" "fst ` set q \<subseteq> set VLESS_QUERY_PARAMS"
  shows "fst ` set (parse_qsl qs) \<subseteq> fst ` set q"
proof (cases q)
  case Nil
  then have "qs = []" using assms(1) by (simp add: urlencode_def join_def)
  then show ?thesis by (simp add: parse_qsl_def parse_field_def)
next
  case (Cons kv rest)
  let ?enc = "\<lambda>kv. quote_plus (fst kv) @ ''='' @ quote_plus (py_str (snd kv))"
  have qs: "qs = join ''&'' (map ?enc q)"
    using assms(1) by (simp add: urlencode_def split: if_splits)
  have key: "quote_plus (fst p) = fst p \<and> unquote (plus_to_space (fst p)) = fst p
      \<and> CHR ''='' \<notin> set (fst p) \<and> CHR ''&'' \<notin> set (fst p)" if "p \<in> set q" for p
  proof -
    have s: "list_all is_always_safe (fst p)"
      using that assms(2) query_key_plain by auto
    then show ?thesis
      using quote_plus_safe safe_unquote always_safe_solid by (auto simp: list_all_iff)
  qed
  have nosep: "CHR ''&'' \<notin> set (?enc p)" if "p \<in> set q" for p
    using key [OF that] quote_plus_chars [of "CHR ''&''" "py_str (snd p)"] always_safe_solid
    by auto
  have "split_on CHR ''&'' qs = map ?enc q"
    unfolding qs using nosep split_on_join [of "?enc kv" "map ?enc rest" "CHR ''&''"] Cons
    by auto
  then have "parse_qsl qs = concat (map (\<lambda>p. parse_field (?enc p)) q)"
    by (simp add: parse_qsl_def comp_def)
  moreover have "fst ` set (parse_field (?enc p)) \<subseteq> {fst p}" if "p \<in> set q" for p
    using key [OF that] parse_field_kv [of "fst p" "quote_plus (py_str (snd p))"] by simp
  ultimately show ?thesis
  proof (intro subsetI)
    fix x assume pq: "parse_qsl qs = concat (map (\<lambda>p. parse_field (?enc p)) q)"
      and sub: "\<And>p. p \<in> set q \<Longrightarrow> fst ` set (parse_field (?enc p)) \<subseteq> {fst p}"
      and x: "x \<in> fst ` set (parse_qsl qs)"
    from x pq obtain p where p: "p \<in> set q" "x \<in> fst ` set (parse_field (?enc p))"
      by auto
    then have "x = fst p" using sub [OF p(1)] by blast
    then show "x \<in> fst ` set q" using p(1) by simp
  qed
qed

lemma normalize_decoded_default:
  assumes "map_of obj ''_type'' = Some (PStr ''vless'')" "''allowInsecure'' \<notin> fst ` set obj"
  shows "map_of (normalize_entry obj) ''allowInsecure'' = Some (PInt 1)"
proof -
  have "map_of obj ''allowInsecure'' = None"
    using assms(2) by (simp add: map_of_eq_None_iff)
  then show ?thesis
    using assms(1)
    by (simp add: normalize_entry_def map_of_normalize_vless WANTED_ORDER_VLESS_def
        field_value_def DEFAULTS_IF_MISSING_VLESS_def)
qed

subsection \<open>Stripping a line and the network location\<close>

lemma ws_len_rev_le3: "ws_len_rev s \<le> 3"
  by (induction s rule: ws_len_rev.induct) (simp_all add: Let_def)

lemma ws_len_rev_bound: "solid d \<Longrightarrow> ws_len_rev (a @ d # b) \<le> length a"
proof (cases a)
  case Nil
  assume "solid d"
  then show ?thesis using Nil by (simp add: ws_len_rev_solid)
next
  case (Cons e a1)
  assume d: "solid d"
  show ?thesis
  proof (cases a1)
    case Nil
    then show ?thesis using Cons d by (cases b) (auto simp: solid_def Let_def)
  next
    case (Cons f a2)
    note c2 = Cons
    show ?thesis
    proof (cases a2)
      case Nil
      then show ?thesis using \<open>a = e # a1\<close> c2 d by (auto simp: solid_def Let_def)
    next
      case (Cons g a3)
      then show ?thesis using \<open>a = e # a1\<close> c2 ws_len_rev_le3 [of "a @ d # b"] by simp
    qed
  qed
qed

lemma rstrip_rev_keeps: "solid d \<Longrightarrow> \<exists>a'. rstrip_rev (a @ d # b) = a' @ d # b"
proof (induction "length a" arbitrary: a rule: less_induct)
  case less
  let ?k = "ws_len_rev (a @ d # b)"
  show ?case
  proof (cases "?k = 0")
    case True
    then have "rstrip_rev (a @ d # b) = a @ d # b" by (subst rstrip_rev.simps) simp
    then show ?thesis by blast
  next
    case False
    have k: "?k \<le> length a" using ws_len_rev_bound [OF less.prems] .
    have "rstrip_rev (a @ d # b) = rstrip_rev (drop ?k (a @ d # b))"
      using False by (subst rstrip_rev.simps) simp
    also have "drop ?k (a @ d # b) = drop ?k a @ d # b" using k by simp
    finally have eq: "rstrip_rev (a @ d # b) = rstrip_rev (drop ?k a @ d # b)" .
    have "length (drop ?k a) < length a" using False k by simp
    from less.hyps [OF this less.prems] show ?thesis unfolding eq .
  qed
qed

lemma rstrip_keeps: "solid d \<Longrightarrow> \<exists>rest'. rstrip (pre @ d # rest) = pre @ d # rest'"
proof -
  assume "solid d"
  from rstrip_rev_keeps [OF this, of "rev rest" "rev pre"]
  obtain a' where "rstrip_rev (rev rest @ d # rev pre) = a' @ d # rev pre" by blast
  then have "rstrip (pre @ d # rest) = pre @ d # rev a'" by (simp add: rstrip_def)
  then show ?thesis by blast
qed

lemma strip_keeps:
  "solid c \<Longrightarrow> solid d \<Longrightarrow> \<exists>rest'. strip (c # body @ d # rest) = c # body @ d # rest'"
  using rstrip_keeps [of d "c # body" rest] by (simp add: strip_def lstrip_solid)

lemma strip_solid_ends:
  "s \<noteq> [] \<Longrightarrow> solid (hd s) \<Longrightarrow> solid (last s) \<Longrightarrow> strip s = s"
  using strip_padded [of "[]" "[]" s] by simp

lemma takeWhile_upto:
  "\<forall>x\<in>set xs. P x \<Longrightarrow> \<not> P c \<Longrightarrow> takeWhile P (xs @ c # ys) = xs"
  by (induction xs) auto

lemma dropWhile_upto:
  "\<forall>x\<in>set xs. P x \<Longrightarrow> \<not> P c \<Longrightarrow> dropWhile P (xs @ c # ys) = c # ys"
  by (induction xs) auto

lemma rpartition_at_append:
  "c \<notin> set v \<Longrightarrow> rpartition_at c (k @ c # v) = Some (k, v)"
proof -
  assume "c \<notin> set v"
  then have a: "\<forall>x\<in>set (rev v). x \<noteq> c" by auto
  have "takeWhile (\<lambda>x. x \<noteq> c) (rev v @ c # rev k) = rev v"
    "dropWhile (\<lambda>x. x \<noteq> c) (rev v @ c # rev k) = c # rev k"
    using a by (simp_all add: takeWhile_upto dropWhile_upto)
  then show ?thesis by (simp add: rpartition_at_def)
qed

lemma digit_plain:
  "is_digit c \<Longrightarrow> solid c \<and> \<not> is_delim c \<and> c \<noteq> CHR ''['' \<and> c \<noteq> CHR '']''
     \<and> c \<noteq> CHR ''@'' \<and> c \<noteq> CHR '':''"
  by (auto simp: is_digit_def solid_def is_space_def is_delim_def)

lemma port_of_netloc:
  assumes "CHR ''@'' \<notin> set A" "CHR '':'' \<notin> set A" "CHR ''['' \<notin> set A"
    and "list_all is_digit P" "nat_of_digits P \<le> 65535"
  shows "\<not> isl (port_of (I @ ''@'' @ A @ '':'' @ P))"
proof -
  have P: "CHR ''@'' \<notin> set P" "CHR ''['' \<notin> set P"
    using assms(4) digit_plain by (auto simp: list_all_iff)
  have "rpartition_at CHR ''@'' (I @ CHR ''@'' # (A @ CHR '':'' # P)) = Some (I, A @ CHR '':'' # P)"
    using assms(1) P by (intro rpartition_at_append) simp
  moreover have "partition_at CHR ''['' (A @ CHR '':'' # P) = None"
    using assms(3) P by (intro partition_at_none) simp
  moreover have "partition_at CHR '':'' (A @ CHR '':'' # P) = Some (A, P)"
    using assms(2) by (rule partition_at_append)
  ultimately have "hostinfo (I @ ''@'' @ A @ '':'' @ P) = (A, P)"
    by (simp add: hostinfo_def)
  then show ?thesis using assms(4,5) by (simp add: port_of_def)
qed

subsection \<open>Decoding an encoded line\<close>

lemma solid_not_removed:
  "solid c \<Longrightarrow> c \<noteq> CHR 0x09 \<and> c \<noteq> CHR 0x0D \<and> c \<noteq> CHR 0x0A"
  by (auto simp: solid_def is_space_def)

lemma filter_solid:
  "\<forall>c\<in>set s. solid c \<Longrightarrow>
   filter (\<lambda>c. c \<noteq> CHR 0x09 \<and> c \<noteq> CHR 0x0D \<and> c \<noteq> CHR 0x0A) s = s"
  using solid_not_removed by (induction s) auto

lemma urlsplit_plain:
  assumes N: "plain N"
    and R: "R = [] \<or> is_delim (hd R)"
    and parts: "(case partition_at CHR ''#'' R of Some (u, f) \<Rightarrow> (u, f) | None \<Rightarrow> (R, [])) = (U, fr)"
    and query: "(case partition_at CHR ''?'' U of Some (u, q) \<Rightarrow> (u, q) | None \<Rightarrow> (U, [])) = (pa, qs)"
    and clean: "filter (\<lambda>c. c \<noteq> CHR 0x09 \<and> c \<noteq> CHR 0x0D \<and> c \<noteq> CHR 0x0A) R = R"
  shows "urlsplit lib (''vless://'' @ N @ R)
      = Inr \<lparr>scheme = ''vless'', netloc = N, url_path = pa, query = qs, fragment = fr\<rparr>"
proof -
  let ?P = "\<lambda>c. c \<noteq> CHR 0x09 \<and> c \<noteq> CHR 0x0D \<and> c \<noteq> CHR 0x0A"
  have n: "\<forall>c\<in>set N. solid c \<and> \<not> is_delim c \<and> c \<noteq> CHR ''['' \<and> c \<noteq> CHR '']''"
    using N by (simp add: plain_def list_all_iff)
  have fN: "filter ?P N = N" using n by (intro filter_solid) simp
  have "partition_at CHR '':'' (''vless'' @ CHR '':'' # (''//'' @ N @ R))
      = Some (''vless'', ''//'' @ N @ R)"
    by (rule partition_at_append) simp
  then have sch: "partition_at CHR '':''
      (CHR ''v'' # CHR ''l'' # CHR ''e'' # CHR ''s'' # CHR ''s'' # CHR '':'' # CHR ''/'' # CHR ''/'' # N @ R)
      = Some (''vless'', CHR ''/'' # CHR ''/'' # N @ R)"
    by simp
  have tw: "takeWhile (\<lambda>c. \<not> is_delim c) (N @ R) = N"
    and dw: "dropWhile (\<lambda>c. \<not> is_delim c) (N @ R) = R"
    using n R by (cases R; simp add: takeWhile_upto dropWhile_upto)+
  have asc: "is_ascii N" using n by (simp add: is_ascii_def solid_def list_all_iff)
  have br: "CHR ''['' \<notin> set N" "CHR '']'' \<notin> set N" using n by auto
  show ?thesis
    unfolding urlsplit_def
    by (simp add: Let_def fN clean sch tw dw parts query asc br is_ascii_alpha_def
        is_scheme_char_def lower_def lower_char_def)
qed

lemma plain_append: "plain (a @ b) \<longleftrightarrow> plain a \<and> plain b"
  by (simp add: plain_def)

lemma plain_Cons:
  "plain (c # s) \<longleftrightarrow>
   (solid c \<and> \<not> is_delim c \<and> c \<noteq> CHR ''['' \<and> c \<noteq> CHR '']'') \<and> plain s"
  by (simp add: plain_def)

lemma plain_Nil: "plain []"
  by (simp add: plain_def)

lemma digits_plain: "list_all is_digit P \<Longrightarrow> plain P"
  by (induction P) (simp_all add: plain_Nil plain_Cons digit_plain)

lemma urlsplit_cong:
  "filter (\<lambda>c. c \<noteq> CHR 0x09 \<and> c \<noteq> CHR 0x0D \<and> c \<noteq> CHR 0x0A)
     (dropWhile (\<lambda>c. (of_char c :: nat) \<le> 0x20) a)
   = filter (\<lambda>c. c \<noteq> CHR 0x09 \<and> c \<noteq> CHR 0x0D \<and> c \<noteq> CHR 0x0A)
     (dropWhile (\<lambda>c. (of_char c :: nat) \<le> 0x20) b)
   \<Longrightarrow> urlsplit lib a = urlsplit lib b"
  by (simp only: urlsplit_def Let_def)

lemma set_join: "set (join sep xs) \<subseteq> set sep \<union> \<Union> (set ` set xs)"
  by (cases xs) (auto simp: join_def)

lemma urlencode_chars:
  assumes "urlencode q = Inr qs"
  shows "\<forall>c\<in>set qs. solid c \<and> c \<noteq> CHR ''#''"
proof
  fix c assume c: "c \<in> set qs"
  let ?enc = "\<lambda>kv. quote_plus (fst kv) @ ''='' @ quote_plus (py_str (snd kv))"
  have "qs = join ''&'' (map ?enc q)"
    using assms by (simp add: urlencode_def split: if_splits)
  then have "c \<in> set ''&'' \<union> \<Union> (set ` set (map ?enc q))"
    using c set_join by blast
  then have "c = CHR ''&'' \<or> (\<exists>p\<in>set q. c \<in> set (?enc p))"
    by (simp only: Un_iff UN_iff set_map) (auto simp del: set_append)
  then obtain p where "c = CHR ''&'' \<or> c \<in> set (?enc p)" by blast
  then have "c = CHR ''&'' \<or> c = CHR ''='' \<or> is_always_safe c \<or> c = CHR ''+'' \<or> c = CHR ''%''"
    using quote_plus_chars [of c "fst p"] quote_plus_chars [of c "py_str (snd p)"] by auto
  then show "solid c \<and> c \<noteq> CHR ''#''"
    using always_safe_solid [of c] by (auto simp: solid_def is_space_def is_delim_def)
qed

lemma encode_shape:
  assumes "encode_vless_url (PDict n) = Inr line"
  shows "\<exists>vi va vp qs T.
      map_of n ''id'' = Some vi \<and> map_of n ''add'' = Some va \<and> map_of n ''port'' = Some vp
      \<and> urlencode (query_params n) = Inr qs
      \<and> line = ''vless://'' @ (py_str vi @ ''@'' @ py_str va @ '':'' @ py_str vp)
               @ ((if qs \<noteq> [] then ''?'' @ qs else []) @ T)
      \<and> (T = [] \<or> (\<exists>f. T = CHR ''#'' # f))"
  using assms
  by (auto simp: encode_vless_url_def then_do_def urlunparse_vless_def
      split: option.splits sum.splits pyval.splits if_splits)

lemma decode_encoded:
  assumes enc: "encode_vless_url (PDict n) = Inr line"
    and id: "plain (py_str (dict_get n ''id'' PNone))"
    and add: "plain (py_str (dict_get n ''add'' PNone))"
      "CHR ''@'' \<notin> set (py_str (dict_get n ''add'' PNone))"
      "CHR '':'' \<notin> set (py_str (dict_get n ''add'' PNone))"
    and port: "list_all is_digit (py_str (dict_get n ''port'' PNone))"
      "nat_of_digits (py_str (dict_get n ''port'' PNone)) \<le> 65535"
  shows "\<exists>obj. decode_vmess_or_vless_line lib json_loads line = Inr obj
      \<and> map_of obj ''_type'' = Some (PStr ''vless'')
      \<and> fst ` set obj \<subseteq> {''_type'', ''id'', ''add'', ''port'', ''ps''}
          \<union> fst ` set (query_params n)"
proof -
  from encode_shape [OF enc] obtain vi va vp qs T where
    f: "map_of n ''id'' = Some vi" "map_of n ''add'' = Some va" "map_of n ''port'' = Some vp"
    and qs: "urlencode (query_params n) = Inr qs"
    and line: "line = ''vless://'' @ (py_str vi @ ''@'' @ py_str va @ '':'' @ py_str vp)
               @ ((if qs \<noteq> [] then ''?'' @ qs else []) @ T)"
    and T: "T = [] \<or> (\<exists>f. T = CHR ''#'' # f)"
    by blast
  define I where "I = py_str vi"
  define A where "A = py_str va"
  define P where "P = py_str vp"
  define N where "N = I @ ''@'' @ A @ '':'' @ P"
  define Q where "Q = (if qs \<noteq> [] then ''?'' @ qs else [])"
  have I: "plain I" and A: "plain A" "CHR ''@'' \<notin> set A" "CHR '':'' \<notin> set A"
    and P: "list_all is_digit P" "nat_of_digits P \<le> 65535"
    using id add port f by (simp_all add: dict_get_def I_def A_def P_def)
  have line': "line = ''vless://'' @ N @ Q @ T"
    using line by (simp add: N_def Q_def I_def A_def P_def)
  have Pp: "\<forall>c\<in>set P. solid c \<and> \<not> is_delim c \<and> c \<noteq> CHR ''['' \<and> c \<noteq> CHR '']''"
    using P(1) digit_plain by (auto simp: list_all_iff)
  have sep: "solid CHR ''@''" "\<not> is_delim CHR ''@''" "solid CHR '':''" "\<not> is_delim CHR '':''"
    "solid CHR ''?''" "solid CHR ''v''" "solid CHR ''#''"
    by (simp_all add: solid_def is_space_def is_delim_def)
  have N: "plain N"
    unfolding N_def
    using I A(1) digits_plain [OF P(1)] sep
    by (simp add: plain_append plain_Cons plain_Nil)
  have qch: "\<forall>c\<in>set qs. solid c \<and> c \<noteq> CHR ''#''" using urlencode_chars [OF qs] .
  have Nlast: "solid (last (CHR ''/'' # N))"
    using Pp sep by (cases P rule: rev_cases) (auto simp: N_def)
  have NQlast: "solid (last (CHR ''/'' # N @ Q))"
  proof (cases "qs = []")
    case True
    then show ?thesis using Nlast by (simp add: Q_def)
  next
    case False
    then have "last (CHR ''/'' # N @ Q) = last qs" by (simp add: Q_def)
    then show ?thesis using qch False by simp
  qed
  have "\<exists>T'. strip line = ''vless://'' @ N @ Q @ T' \<and> (T' = [] \<or> (\<exists>f. T' = CHR ''#'' # f))"
  proof (cases "T = []")
    case True
    have "strip line = line"
    proof (rule strip_solid_ends)
      show "line \<noteq> []" by (simp add: line')
      show "solid (hd line)" using sep by (simp add: line')
      have "last line = last (CHR ''/'' # N @ Q)" by (simp add: line' True)
      then show "solid (last line)" using NQlast by simp
    qed
    then show ?thesis using True line' by simp
  next
    case False
    then obtain f where f: "T = CHR ''#'' # f" using T by blast
    from strip_keeps [OF sep(6) sep(7), of "''less://'' @ N @ Q" f]
    obtain rest' where "strip (CHR ''v'' # (''less://'' @ N @ Q) @ CHR ''#'' # f)
        = CHR ''v'' # (''less://'' @ N @ Q) @ CHR ''#'' # rest'"
      by blast
    then have "strip line = ''vless://'' @ N @ Q @ CHR ''#'' # rest'"
      by (simp add: line' f)
    then show ?thesis by blast
  qed
  then obtain T' where s: "strip line = ''vless://'' @ N @ Q @ T'"
    and T': "T' = [] \<or> (\<exists>f. T' = CHR ''#'' # f)"
    by blast
  let ?F = "filter (\<lambda>c. c \<noteq> CHR 0x09 \<and> c \<noteq> CHR 0x0D \<and> c \<noteq> CHR 0x0A)"
  define R where "R = Q @ ?F T'"
  have fQ: "?F Q = Q" using qch sep by (intro filter_solid) (auto simp: Q_def)
  have FT: "?F T' = [] \<or> (\<exists>f. ?F T' = CHR ''#'' # f)" using T' by auto
  have Rd: "R = [] \<or> is_delim (hd R)"
    using FT by (auto simp: R_def Q_def is_delim_def)
  have Qh: "CHR ''#'' \<notin> set Q" using qch by (auto simp: Q_def)
  obtain fr where parts:
    "(case partition_at CHR ''#'' R of Some (u, f) \<Rightarrow> (u, f) | None \<Rightarrow> (R, [])) = (Q, fr)"
  proof (cases "?F T' = []")
    case True
    then have "partition_at CHR ''#'' R = None" using Qh by (simp add: R_def partition_at_none)
    then show ?thesis using that True by (simp add: R_def)
  next
    case False
    then obtain f where "?F T' = CHR ''#'' # f" using FT by blast
    then have "partition_at CHR ''#'' R = Some (Q, f)"
      using Qh by (simp add: R_def partition_at_append)
    then show ?thesis using that by simp
  qed
  have query: "(case partition_at CHR ''?'' Q of Some (u, q) \<Rightarrow> (u, q) | None \<Rightarrow> (Q, [])) = ([], qs)"
    using partition_at_append [of "CHR ''?''" "[]" qs]
    by (simp add: Q_def partition_at_none)
  have clean: "?F R = R" by (simp add: R_def fQ)
  have fF: "?F (?F T') = ?F T'" by (induction T') simp_all
  have idem: "urlsplit lib (strip line) = urlsplit lib (''vless://'' @ N @ R)"
    by (rule urlsplit_cong) (simp add: s R_def fQ fF)
  have split: "urlsplit lib (''vless://'' @ N @ R)
      = Inr \<lparr>scheme = ''vless'', netloc = N, url_path = [], query = qs, fragment = fr\<rparr>"
    by (rule urlsplit_plain [OF N Rd parts query clean])
  have br: "CHR ''['' \<notin> set A" using A(1) by (auto simp: plain_def list_all_iff)
  have po: "\<not> isl (port_of N)"
    unfolding N_def by (rule port_of_netloc [OF A(2,3) br P])
  then obtain pv where pv: "port_of N = Inr pv" by (cases "port_of N") auto
  let ?res = "merge_query (parse_qs qs)
      [(''id'', username N), (''add'', hostname lib N), (''port'', PStr (py_str pv)),
       (''ps'', PStr fr)]"
  have sp: "urlsplit lib (strip line)
      = Inr \<lparr>scheme = ''vless'', netloc = N, url_path = [], query = qs, fragment = fr\<rparr>"
    by (simp only: idem split)
  have parse: "parse_vless_url lib (strip line) = Inr ?res"
    by (simp add: parse_vless_url_def sp then_do_def pv)
  have sw: "\<not> startswith (strip line) ''vmess://''" "startswith (strip line) ''vless://''"
    "strip line \<noteq> []"
    by (simp_all add: s startswith_def)
  let ?obj = "AList.update ''_type'' (PStr ''vless'') ?res"
  have dec: "decode_vmess_or_vless_line lib json_loads line = Inr ?obj"
    using sw by (simp add: decode_vmess_or_vless_line_def Let_def parse then_do_def)
  have ty: "map_of ?obj ''_type'' = Some (PStr ''vless'')"
    by (simp add: update_conv')
  have "fst ` set (parse_qs qs) \<subseteq> fst ` set (query_params n)"
    unfolding keys_parse_qs
    by (rule parse_qsl_urlencode [OF qs query_params_keys_subset])
  then have keys: "fst ` set ?obj \<subseteq> {''_type'', ''id'', ''add'', ''port'', ''ps''}
      \<union> fst ` set (query_params n)"
    by (auto simp: dom_update keys_merge_query)
  show ?thesis using dec ty keys by blast
qed

lemma decode_encoded_flip:
  assumes enc: "encode_vless_url (PDict n) = Inr line"
    and zero: "map_of n ''allowInsecure'' = Some (PInt 0)"
    and id: "plain (py_str (dict_get n ''id'' PNone))"
    and add: "plain (py_str (dict_get n ''add'' PNone))"
      "CHR ''@'' \<notin> set (py_str (dict_get n ''add'' PNone))"
      "CHR '':'' \<notin> set (py_str (dict_get n ''add'' PNone))"
    and port: "list_all is_digit (py_str (dict_get n ''port'' PNone))"
      "nat_of_digits (py_str (dict_get n ''port'' PNone)) \<le> 65535"
  shows "\<exists>obj. decode_vmess_or_vless_line lib json_loads line = Inr obj
      \<and> map_of (normalize_entry obj) ''allowInsecure'' = Some (PInt 1)"
proof -
  from decode_encoded [OF enc id add port, of lib json_loads]
  obtain obj where obj: "decode_vmess_or_vless_line lib json_loads line = Inr obj"
    "map_of obj ''_type'' = Some (PStr ''vless'')"
    "fst ` set obj \<subseteq> {''_type'', ''id'', ''add'', ''port'', ''ps''}
      \<union> fst ` set (query_params n)"
    by blast
  have "''allowInsecure'' \<notin> set (map fst (query_params n))"
    using zero by (simp add: keys_query_params)
  then have "''allowInsecure'' \<notin> fst ` set obj" using obj(3) by auto
  then show ?thesis using obj(1,2) normalize_decoded_default by blast
qed


section \<open>Normalization is idempotent\<close>

text \<open>
  Claim C8. For every raw record \<open>r\<close> of either scheme, normalizing the normalized
  record changes nothing: \<open>normalize_entry (normalize_entry r) = normalize_entry r\<close>.
  The normalized record carries the tag of its scheme, so the second call takes the same
  branch as the first; its port is already a string and its \<^verbatim>\<open>allowInsecure\<close> already
  0 or 1.
\<close>

theorem normalize_entry_idempotent:
  "normalize_entry (normalize_entry r) = normalize_entry r"
proof (cases "map_of r ''_type'' = Some (PStr ''vless'')")
  case True
  then have "normalize_entry r = normalize_vless_entry r"
    by (simp add: normalize_entry_def)
  then show ?thesis
    by (simp add: normalize_entry_def type_of_normalize_vless normalize_vless_entry_idem)
next
  case False
  then have "normalize_entry r = normalize_vmess_entry r"
    by (simp add: normalize_entry_def)
  then show ?thesis
    by (simp add: normalize_entry_def type_of_normalize_vmess normalize_vmess_entry_idem)
qed

section \<open>The keys of a serialized normalized record\<close>

text \<open>
  Claim C4, as the specification states it: the serialized normalized record lists
  exactly the keys of the canonical sequence of its scheme. The normalizers add the key
  \<^verbatim>\<open>_type\<close> after the projection, and \<^verbatim>\<open>json.dumps\<close> writes it: the record normalized from
  the empty record has seventeen keys, the sixteen of the table and \<^verbatim>\<open>_type\<close>.
\<close>

theorem serialized_keys_counterexample:
  \<open>map fst (normalize_entry []) \<noteq> WANTED_ORDER_VMESS
   \<and> json_dumps (PDict (normalize_entry [])) =
     ''{"add":"","aid":"0","allowInsecure":1,"alpn":"","fp":"","host":"","id":"","net":"","path":"","port":"","ps":"","scy":"","sni":"","tls":"","type":"","v":"","_type":"vmess"}''\<close>
  by (simp add: normalize_entry_def normalize_vmess_entry_eq WANTED_ORDER_VMESS_def
      DEFAULTS_IF_MISSING_VMESS_def field_value_def json_str_def json_escape_char_def join_def
      str_int_def dec_nat.simps)

text \<open>
  Claim C4, amended. For every raw record of either scheme, the keys of the normalized
  record are the canonical sequence of its scheme, in that order, followed by the key
  \<^verbatim>\<open>_type\<close>, with no other key and none missing; and the compact serialized form writes
  the members of the record in that order, separated by commas, each as the quoted key, a
  colon and the value.
\<close>

theorem serialized_keys_canonical:
  "map fst (normalize_entry r) =
     (if map_of r ''_type'' = Some (PStr ''vless'') then WANTED_ORDER_VLESS else WANTED_ORDER_VMESS)
     @ [''_type'']
   \<and> json_dumps (PDict (normalize_entry r)) =
     ''{'' @ join '','' (map (\<lambda>kv. json_str (fst kv) @ '':'' @ json_dumps (snd kv)) (normalize_entry r))
     @ ''}''"
  by (simp add: normalize_entry_def keys_normalize_vmess keys_normalize_vless)

section \<open>The host field under substitution\<close>

text \<open>
  Claim C3. Let the template be a record with a \<^verbatim>\<open>host\<close> field. In the loop of scheme A
  the substitution succeeds and the host of the rewritten record is the substitution
  value. In the loop of scheme B, when the record has a \<^verbatim>\<open>type\<close>, the substitution
  succeeds and the host is the substitution value exactly when the type is neither
  \<^verbatim>\<open>xhttp\<close> nor \<^verbatim>\<open>ws\<close>, and is the host of the template otherwise; when the record
  has no \<^verbatim>\<open>type\<close>, the substitution fails with \<^verbatim>\<open>KeyError('type')\<close>, which the loop
  reports, and the substitution gives no line.
\<close>

theorem host_rewrite_rule:
  "has_key d ''host'' \<Longrightarrow>
     (\<exists>d'. vmess_substitute (PDict d) rep = Inr (PDict d') \<and> map_of d' ''host'' = Some (PStr rep))
   \<and> (\<forall>t. map_of d ''type'' = Some t \<longrightarrow>
         (\<exists>d'. vless_substitute (PDict d) rep = Inr (PDict d')
            \<and> map_of d' ''host'' =
                (if t \<noteq> PStr ''xhttp'' \<and> t \<noteq> PStr ''ws'' then Some (PStr rep)
                 else map_of d ''host'')))
   \<and> (map_of d ''type'' = None \<longrightarrow>
         vless_substitute (PDict d) rep = Inl (KeyError ''type'')
         \<and> (\<forall>json_loads template. json_loads template = Some (PDict d) \<longrightarrow>
               make_vless_lines json_loads template [rep] = ([], [KeyError ''type''])))"
proof (intro conjI allI impI)
  assume h: "has_key d ''host''"
  show "\<exists>d'. vmess_substitute (PDict d) rep = Inr (PDict d') \<and> map_of d' ''host'' = Some (PStr rep)"
    using h by (rule vmess_substitute_host)
  show "\<exists>d'. vless_substitute (PDict d) rep = Inr (PDict d')
          \<and> map_of d' ''host'' =
              (if t \<noteq> PStr ''xhttp'' \<and> t \<noteq> PStr ''ws'' then Some (PStr rep) else map_of d ''host'')"
    if "map_of d ''type'' = Some t" for t
    using h that by (rule vless_substitute_host)
  assume n: "map_of d ''type'' = None"
  show e: "vless_substitute (PDict d) rep = Inl (KeyError ''type'')"
    using h n by (rule vless_substitute_no_type)
  show "make_vless_lines json_loads template [rep] = ([], [KeyError ''type''])"
    if "json_loads template = Some (PDict d)" for json_loads template
    using that e by (simp add: vless_try_def then_do_def)
qed

theorem host_rewrite_rule_witness:
  "has_key [(''host'', PStr ''old.com''), (''type'', PStr ''ws'')] ''host''
   \<and> vmess_substitute (PDict [(''host'', PStr ''old.com''), (''type'', PStr ''ws'')]) ''a.com''
       = Inr (PDict [(''host'', PStr ''a.com''), (''type'', PStr ''ws'')])
   \<and> vless_substitute (PDict [(''host'', PStr ''old.com''), (''type'', PStr ''ws'')]) ''a.com''
       = Inr (PDict [(''host'', PStr ''old.com''), (''type'', PStr ''ws'')])
   \<and> vless_substitute (PDict [(''host'', PStr ''old.com''), (''type'', PStr ''tcp'')]) ''a.com''
       = Inr (PDict [(''host'', PStr ''a.com''), (''type'', PStr ''tcp'')])
   \<and> has_key [(''host'', PStr ''old.com'')] ''host''
   \<and> map_of [(''host'', PStr ''old.com'')] ''type'' = None
   \<and> vless_substitute (PDict [(''host'', PStr ''old.com'')]) ''a.com'' = Inl (KeyError ''type'')"
  using host_rewrite_rule [of "[(''host'', PStr ''old.com'')]" "''a.com''"]
  by (simp add: has_key_def vmess_substitute_def vless_substitute_def vless_set_host_def
      set_if_present_def label_with_def then_do_def)

section \<open>Scheme-A generation never fails\<close>



section \<open>Concrete scenario B\<close>

text \<open>
  Claim C2, as the specification states it: the line
  \<^verbatim>\<open>vless://user-id@host.example:8443?security=tls&sni=sni.example#My%20Label\<close> decodes to
  a record whose label \<^verbatim>\<open>ps\<close> is \<^verbatim>\<open>My Label\<close>. \<open>parse_vless_url\<close> takes the label from
  \<^verbatim>\<open>parsed.fragment\<close>, and \<^verbatim>\<open>urlparse\<close> does not decode percent-escapes: the label is the
  text \<^verbatim>\<open>My%20Label\<close>.
\<close>

theorem scenario_b_counterexample:
  "map_sum id (\<lambda>d. map_of (normalize_entry d) ''ps'')
     (decode_vmess_or_vless_line sample_lib (\<lambda>s. None)
        ''vless://user-id@host.example:8443?security=tls&sni=sni.example#My%20Label'')
   = Inr (Some (PStr ''My%20Label''))
   \<and> PStr ''My%20Label'' \<noteq> PStr ''My Label''"
  by (simp add: scenario_b_decode normalize_vless_eval)

text \<open>
  Claim C2, amended. Decoding that line and normalizing the result gives the scheme-B
  record with \<^verbatim>\<open>id\<close> = \<^verbatim>\<open>user-id\<close>, \<^verbatim>\<open>add\<close> = \<^verbatim>\<open>host.example\<close>, \<^verbatim>\<open>port\<close> = \<^verbatim>\<open>8443\<close>,
  \<^verbatim>\<open>ps\<close> = \<^verbatim>\<open>My%20Label\<close> (the fragment as it is written), \<^verbatim>\<open>security\<close> = \<^verbatim>\<open>tls\<close>,
  \<^verbatim>\<open>sni\<close> = \<^verbatim>\<open>sni.example\<close>, and every other canonical field with its default
  (\<^verbatim>\<open>type\<close> = \<^verbatim>\<open>tcp\<close>, \<^verbatim>\<open>encryption\<close> = \<^verbatim>\<open>none\<close>, \<^verbatim>\<open>allowInsecure\<close> = 1) or the empty
  string.
\<close>

theorem scenario_b:
  "map_sum id normalize_entry
     (decode_vmess_or_vless_line lib json_loads
        ''vless://user-id@host.example:8443?security=tls&sni=sni.example#My%20Label'')
   = Inr [(''add'', PStr ''host.example''), (''port'', PStr ''8443''), (''id'', PStr ''user-id''),
          (''ps'', PStr ''My%20Label''), (''type'', PStr ''tcp''), (''encryption'', PStr ''none''),
          (''security'', PStr ''tls''), (''sni'', PStr ''sni.example''), (''host'', PStr []),
          (''path'', PStr []), (''seed'', PStr []), (''fp'', PStr []), (''alpn'', PStr []),
          (''allowInsecure'', PInt 1), (''mode'', PStr []), (''pbk'', PStr []), (''sid'', PStr []),
          (''spx'', PStr []), (''pqv'', PStr []), (''ech'', PStr []), (''flow'', PStr []),
          (''_type'', PStr ''vless'')]"
  by (simp add: scenario_b_decode normalize_vless_eval)

section \<open>Truthy coercion is total and two-valued\<close>

text \<open>
  Claim C7. \<open>truthy_to_int\<close> is a total function whose result is 0 or 1 on every value.
  A boolean gives 1 for true and 0 for false. A number gives 0 when it is zero (the
  integer 0, the floats \<^verbatim>\<open>0.0\<close> and \<^verbatim>\<open>-0.0\<close>) and 1 otherwise. A string gives 1 when,
  trimmed and lowered, it is one of \<^verbatim>\<open>1\<close>, \<^verbatim>\<open>true\<close>, \<^verbatim>\<open>yes\<close>, \<^verbatim>\<open>y\<close>, \<^verbatim>\<open>on\<close>, and 0
  otherwise: a word \<open>u\<close> that lowers to one of the five, with any whitespace \<open>pre\<close>
  before it and \<open>post\<close> after it, gives 1, and a word between whitespace that does not
  lower to one of them gives 0. Every other value (\<^verbatim>\<open>None\<close>, a list, a dictionary) gives
  0. The three lists evaluate the function: on the inputs of the specification, on words
  that need trimming or case folding, and on values that give 0 or are numbers.
\<close>

theorem truthy_to_int_total:
  "(truthy_to_int v = 0 \<or> truthy_to_int v = 1)
   \<and> truthy_to_int (PBool b) = (if b then 1 else 0)
   \<and> truthy_to_int (PInt i) = (if i = 0 then 0 else 1)
   \<and> truthy_to_int (PFloat r) = (if r = ''0.0'' \<or> r = ''-0.0'' then 0 else 1)
   \<and> truthy_to_int (PStr s) =
       (if lower (strip s) \<in> {''1'', ''true'', ''yes'', ''y'', ''on''} then 1 else 0)
   \<and> truthy_to_int PNone = 0
   \<and> truthy_to_int (PList xs) = 0
   \<and> truthy_to_int (PDict kvs) = 0
   \<and> (list_all is_space pre \<and> list_all is_space post
        \<and> lower u \<in> set [''1'', ''true'', ''yes'', ''y'', ''on'']
        \<longrightarrow> truthy_to_int (PStr (pre @ u @ post)) = 1)
   \<and> (list_all is_space pre \<and> list_all is_space post
        \<and> (u = [] \<or> solid (hd u) \<and> solid (last u))
        \<and> lower u \<notin> set [''1'', ''true'', ''yes'', ''y'', ''on'']
        \<longrightarrow> truthy_to_int (PStr (pre @ u @ post)) = 0)
   \<and> map truthy_to_int
         [PBool True, PBool False, PInt 0, PInt 1, PFloat ''2.5'', PStr ''yes'', PStr ''NO'',
          PStr ''on'', PStr [], PStr ''banana'', PNone]
       = [1, 0, 0, 1, 1, 1, 0, 1, 0, 0, 0]
   \<and> map truthy_to_int
         [PStr '' yes '', PStr ''YES'', PStr ''True'', PStr ([CHR 0x09] @ ''On'' @ [CHR 0x0A]),
          PStr ''Y'', PStr '' 1'', PStr ''tRuE  '', PStr ([CHR 0xC2, CHR 0xA0] @ ''yes'')]
       = [1, 1, 1, 1, 1, 1, 1, 1]
   \<and> map truthy_to_int
         [PStr ''no'', PStr ''0'', PStr ''false'', PStr ''off'', PStr ''ye s'', PStr ''2'',
          PStr ''yes!'', PStr ''   '', PInt (- 3), PFloat ''0.0'', PFloat ''-0.0'', PFloat ''nan'',
          PList [PInt 1], PDict [(''a'', PInt 1)]]
       = [0, 0, 0, 0, 0, 0, 0, 0, 1, 0, 0, 1, 0, 0]"
proof (intro conjI impI)
  show "truthy_to_int v = 0 \<or> truthy_to_int v = 1"
    by (cases v) (simp_all add: Let_def)
  show "truthy_to_int (PFloat r) = (if r = ''0.0'' \<or> r = ''-0.0'' then 0 else 1)"
    by (simp add: float_nonzero_def)
  show "truthy_to_int (PStr (pre @ u @ post)) = 1"
    if "list_all is_space pre \<and> list_all is_space post
        \<and> lower u \<in> set [''1'', ''true'', ''yes'', ''y'', ''on'']"
    using that truthy_padded by blast
  show "truthy_to_int (PStr (pre @ u @ post)) = 0"
    if "list_all is_space pre \<and> list_all is_space post
        \<and> (u = [] \<or> solid (hd u) \<and> solid (last u))
        \<and> lower u \<notin> set [''1'', ''true'', ''yes'', ''y'', ''on'']"
    using that truthy_padded_other by blast
  show "map truthy_to_int
         [PBool True, PBool False, PInt 0, PInt 1, PFloat ''2.5'', PStr ''yes'', PStr ''NO'',
          PStr ''on'', PStr [], PStr ''banana'', PNone]
       = [1, 0, 0, 1, 1, 1, 0, 1, 0, 0, 0]"
    by (simp add: strip_eval lower_def lower_char_def float_nonzero_def)
  show "map truthy_to_int
         [PStr '' yes '', PStr ''YES'', PStr ''True'', PStr ([CHR 0x09] @ ''On'' @ [CHR 0x0A]),
          PStr ''Y'', PStr '' 1'', PStr ''tRuE  '', PStr ([CHR 0xC2, CHR 0xA0] @ ''yes'')]
       = [1, 1, 1, 1, 1, 1, 1, 1]"
    by (simp add: strip_eval lower_def lower_char_def)
  show "map truthy_to_int
         [PStr ''no'', PStr ''0'', PStr ''false'', PStr ''off'', PStr ''ye s'', PStr ''2'',
          PStr ''yes!'', PStr ''   '', PInt (- 3), PFloat ''0.0'', PFloat ''-0.0'', PFloat ''nan'',
          PList [PInt 1], PDict [(''a'', PInt 1)]]
       = [0, 0, 0, 0, 0, 0, 0, 0, 1, 0, 0, 1, 0, 0]"
    by (simp add: strip_eval lower_def lower_char_def float_nonzero_def)
qed (simp_all add: Let_def)

theorem truthy_to_int_total_witness:
  "list_all is_space ''  '' \<and> list_all is_space [CHR 0x09]
   \<and> lower ''YeS'' \<in> set [''1'', ''true'', ''yes'', ''y'', ''on'']
   \<and> truthy_to_int (PStr (''  '' @ ''YeS'' @ [CHR 0x09])) = 1
   \<and> solid (hd ''nope'') \<and> solid (last ''nope'')
   \<and> lower ''nope'' \<notin> set [''1'', ''true'', ''yes'', ''y'', ''on'']
   \<and> truthy_to_int (PStr (''  '' @ ''nope'' @ [CHR 0x09])) = 0"
proof -
  have a: "list_all is_space ''  '' \<and> list_all is_space [CHR 0x09]"
    by (simp add: is_space_def)
  have b: "lower ''YeS'' \<in> set [''1'', ''true'', ''yes'', ''y'', ''on'']"
    by (simp add: lower_def lower_char_def)
  have c: "solid (hd ''nope'') \<and> solid (last ''nope'')
      \<and> lower ''nope'' \<notin> set [''1'', ''true'', ''yes'', ''y'', ''on'']"
    by (simp add: solid_def is_space_def lower_def lower_char_def)
  show ?thesis
    using a b c
      truthy_to_int_total [of _ _ _ _ _ _ _ "''  ''" "[CHR 0x09]" "''YeS''"]
      truthy_to_int_total [of _ _ _ _ _ _ _ "''  ''" "[CHR 0x09]" "''nope''"]
    by blast
qed

section \<open>One line for each substitution\<close>

text \<open>
  Claim C6. The loop of scheme A gives one line for each substitution, in the order of
  the list, for every template and every list: no substitution of scheme A is skipped. So
  does \<open>make_proxy_lines\<close> on a template of scheme A. The loop of scheme B does so when
  its body succeeds for every substitution of the list (\<open>vless_try\<close> gives a line, not
  an error): then nothing is reported, the \<open>i\<close>-th line is the line of the \<open>i\<close>-th
  substitution, and \<open>make_proxy_lines\<close> returns as many lines as there are
  substitutions, duplicates included.
\<close>

theorem substitution_count:
  "make_vmess_lines json_loads template replacements
     = map (vmess_line json_loads template) replacements
   \<and> length (make_vmess_lines json_loads template replacements) = length replacements
   \<and> (proxy_type json_loads template = PStr ''vmess'' \<longrightarrow>
        make_proxy_lines json_loads template replacements
          = map (vmess_line json_loads template) replacements
        \<and> length (make_proxy_lines json_loads template replacements) = length replacements)
   \<and> (list_all (\<lambda>rep. \<not> isl (vless_try json_loads template rep)) replacements \<longrightarrow>
        make_vless_lines json_loads template replacements
          = (map (\<lambda>rep. projr (vless_try json_loads template rep)) replacements, [])
        \<and> length (fst (make_vless_lines json_loads template replacements)) = length replacements
        \<and> length (make_proxy_lines json_loads template replacements) = length replacements
        \<and> (proxy_type json_loads template \<noteq> PStr ''vmess'' \<longrightarrow>
             make_proxy_lines json_loads template replacements
               = map (\<lambda>rep. projr (vless_try json_loads template rep)) replacements))"
  by (simp add: make_vmess_lines_map make_vless_lines_all_ok make_proxy_lines_def)

theorem substitution_count_witness:
  "proxy_type sample_vmess_loads ''C'' = PStr ''vmess''
   \<and> make_proxy_lines sample_vmess_loads ''C'' [''a.com'', ''b.com'']
       = [''vmess://eyJzbmkiOiJhLmNvbSIsImhvc3QiOiJhLmNvbSIsInBzIjoiTm9kZSAoYS5jb20pIn0='',
          ''vmess://eyJzbmkiOiJiLmNvbSIsImhvc3QiOiJiLmNvbSIsInBzIjoiTm9kZSAoYi5jb20pIn0='']
   \<and> proxy_type (\<lambda>s. None) ''{vk.com'' = PStr ''vmess''
   \<and> make_proxy_lines (\<lambda>s. None) ''{vk.com'' [''a.ru'', ''a.ru'']
       = [''vmess://e2EucnU='', ''vmess://e2EucnU='']
   \<and> list_all (\<lambda>rep. \<not> isl (vless_try sample_loads ''T'' rep)) [''a.com'', ''a.com'']
   \<and> proxy_type sample_loads ''T'' \<noteq> PStr ''vmess''
   \<and> make_proxy_lines sample_loads ''T'' [''a.com'', ''a.com'']
       = [''vless://u@h.example:443?type=tcp&sni=a.com&host=a.com#Node (a.com)'',
          ''vless://u@h.example:443?type=tcp&sni=a.com&host=a.com#Node (a.com)'']"
proof -
  have c: "proxy_type sample_vmess_loads ''C'' = PStr ''vmess''"
    by (simp add: proxy_type_def sample_vmess_loads_def sample_vmess_template_def dict_get_def)
  have cl: "vmess_line sample_vmess_loads ''C'' ''a.com''
        = ''vmess://eyJzbmkiOiJhLmNvbSIsImhvc3QiOiJhLmNvbSIsInBzIjoiTm9kZSAoYS5jb20pIn0=''"
      "vmess_line sample_vmess_loads ''C'' ''b.com''
        = ''vmess://eyJzbmkiOiJiLmNvbSIsImhvc3QiOiJiLmNvbSIsInBzIjoiTm9kZSAoYi5jb20pIn0=''"
    by (simp_all add: vmess_line_def vmess_try_def sample_vmess_loads_def
        sample_vmess_template_def substitute_eval encode_vmess_def json_str_def
        json_escape_char_def join_def b64chars_def)
  have f: "proxy_type (\<lambda>s. None) ''{vk.com'' = PStr ''vmess''"
    by (simp add: proxy_type_def startswith_def)
  have fl: "vmess_line (\<lambda>s. None) ''{vk.com'' ''a.ru'' = ''vmess://e2EucnU=''"
    by (simp add: vmess_line_def vmess_try_def b64chars_def)
  have ok: "list_all (\<lambda>rep. \<not> isl (vless_try sample_loads ''T'' rep)) [''a.com'', ''a.com'']"
    by (simp add: sample_vless_try)
  have ty: "proxy_type sample_loads ''T'' \<noteq> PStr ''vmess''"
    by (simp add: proxy_type_def sample_loads_def sample_vless_template_def dict_get_def)
  show ?thesis
    using c f ok ty
      substitution_count [of sample_vmess_loads "''C''" "[''a.com'', ''b.com'']"]
      substitution_count [of "\<lambda>s. None" "''{vk.com''" "[''a.ru'', ''a.ru'']"]
      substitution_count [of sample_loads "''T''" "[''a.com'', ''a.com'']"]
    by (simp add: cl fl sample_vless_try)
qed
section \<open>A malformed line is skipped and the source is replaced in one step\<close>

text \<open>
  Claim C5, as it is written, fails for a line that is not well-formed UTF-8. The three
  lines below are a file whose first and third line decode and whose second line is the
  single byte \<open>0xFF\<close>. The loop reads the file as UTF-8 text and the reading is outside
  the \<^verbatim>\<open>try\<close>: the call ends with \<^verbatim>\<open>UnicodeDecodeError\<close>, no record reaches the source
  and the source is not replaced, so this one bad line is fatal.
\<close>

theorem partial_failure_counterexample:
  "line_ok sample_lib sample_loads ''vless://u@h.example:443#A''
   \<and> line_ok sample_lib sample_loads ''vless://v@h.example:80''
   \<and> decode_file_inplace sample_lib sample_loads ''tmp1'' ''file1.txt''
         [''file1.txt'' \<mapsto> [''vless://u@h.example:443#A'', [CHR 0xFF], ''vless://v@h.example:80'']]
       = Inl UnicodeError
   \<and> last (decode_file_states sample_lib sample_loads ''tmp1'' ''file1.txt''
         [''file1.txt'' \<mapsto> [''vless://u@h.example:443#A'', [CHR 0xFF], ''vless://v@h.example:80'']])
         ''file1.txt''
       = Some [''vless://u@h.example:443#A'', [CHR 0xFF], ''vless://v@h.example:80'']"
  by (simp add: line_ok_def try_body_def then_do_def decode_vmess_or_vless_line_def strip_eval
      startswith_def parse_vless_url_def url_eval normalize_entry_def normalize_vless_eval
      json_str_def json_escape_char_def join_def str_int_def dec_nat.simps
      decode_file_inplace_def decode_file_states_def)

text \<open>
  Claim C5, amended. Let the source file be UTF-8 text of \<open>N\<close> lines, let line \<open>k\<close>
  (counted from 1) be malformed, that is, not blank and such that the body of the
  \<^verbatim>\<open>try\<close> fails on it with the error \<open>e\<close> (the line is rejected by
  \<open>decode_vmess_or_vless_line\<close>, or its record cannot be written as UTF-8), and let the
  body succeed on every other line. Then \<open>decode_file_inplace\<close> returns normally; it has
  written \<open>N - 1\<close> records, the normalized records of the other lines in their order; it
  has printed one diagnostic, for line \<open>k\<close> with the error \<open>e\<close>. The two counters add up
  to \<open>N - 1\<close> when line \<open>k\<close> was rejected by the decoder and to \<open>N\<close> when it was
  decoded and failed only at the write, which comes after the counter. In every state of
  the file system before the last step the source path still holds the original lines;
  the state before the last step has the complete temporary file, and the last step,
  \<^verbatim>\<open>os.replace\<close>, puts it at the source path and removes the temporary name.
\<close>

theorem partial_failure_isolation:
  assumes src: "fs path = Some lines"
    and fresh: "tmp_name \<noteq> path"
    and enc: "list_all utf8_valid lines"
    and k: "1 \<le> k" "k \<le> length lines"
    and nonblank: "strip (lines ! (k - 1)) \<noteq> []"
    and bad: "try_body lib json_loads (strip (lines ! (k - 1))) = Inl e"
    and good: "\<forall>i<length lines. i \<noteq> k - 1 \<longrightarrow> line_ok lib json_loads (lines ! i)"
  shows "\<exists>fs' st. decode_file_inplace lib json_loads tmp_name path fs = Inr (fs', st)
      \<and> written st = length lines - 1
      \<and> tmp_lines st = map (written_line lib json_loads) (take (k - 1) lines @ drop k lines)
      \<and> printed st = [(k, e)]
      \<and> vmess_count st + vless_count st
          = length lines - 1 + (if line_counted lib json_loads (lines ! (k - 1)) then 1 else 0)
      \<and> fs' path = Some (tmp_lines st) \<and> fs' tmp_name = None
      \<and> (\<forall>s \<in> set (butlast (decode_file_states lib json_loads tmp_name path fs)).
            s path = Some lines)
      \<and> last (butlast (decode_file_states lib json_loads tmp_name path fs)) tmp_name
          = Some (tmp_lines st)
      \<and> last (decode_file_states lib json_loads tmp_name path fs) = fs'"
proof -
  define xs where "xs = take (k - 1) lines"
  define b where "b = lines ! (k - 1)"
  define ys where "ys = drop k lines"
  let ?st = "decode_loop lib json_loads 1 lines initial_state"
  let ?fs' = "(fs(tmp_name := None))(path \<mapsto> tmp_lines ?st)"
  have km: "k - 1 < length lines" using k by simp
  have split: "lines = xs @ b # ys"
    unfolding xs_def b_def ys_def using id_take_nth_drop [OF km] k by simp
  have okx: "list_all (line_ok lib json_loads) xs"
    unfolding xs_def list_all_length using good km by simp
  have oky: "list_all (line_ok lib json_loads) ys"
    unfolding ys_def list_all_length using good k by simp
  have badb: "try_body lib json_loads (strip b) = Inl e"
    and nonb: "strip b \<noteq> []"
    unfolding b_def using bad nonblank by simp_all
  have out: "concat (map (line_output lib json_loads) lines)
      = map (written_line lib json_loads) (xs @ ys)"
    unfolding split by (simp add: outputs_all_ok okx oky line_output_bad [OF badb])
  have lenx: "Suc (length xs) = k" unfolding xs_def using k by simp
  have diag: "loop_diags lib json_loads 1 lines = [(k, e)]"
    unfolding split
    by (simp add: loop_diags_append diags_all_ok [OF okx] diags_all_ok [OF oky]
        line_diag_bad [OF nonb badb] lenx)
  have len: "length (xs @ ys) = length lines - 1" unfolding split by simp
  have cnt: "length (filter (line_counted lib json_loads) lines)
      = length lines - 1 + (if line_counted lib json_loads b then 1 else 0)"
    unfolding split by (simp add: counted_all_ok okx oky)
  have r: "decode_file_inplace lib json_loads tmp_name path fs = Inr (?fs', ?st)"
    by (simp add: decode_file_inplace_def src enc Let_def)
  have w: "written ?st = length lines - 1"
    by (simp only: decode_loop_written out length_map len) (simp add: initial_state_def)
  have t: "tmp_lines ?st = map (written_line lib json_loads) (xs @ ys)"
    by (simp only: decode_loop_tmp_lines out) (simp add: initial_state_def)
  have p: "printed ?st = [(k, e)]"
    using diag by (simp add: decode_loop_printed initial_state_def)
  have c: "vmess_count ?st + vless_count ?st
      = length lines - 1 + (if line_counted lib json_loads b then 1 else 0)"
    by (simp only: decode_loop_counts cnt) (simp add: initial_state_def)
  let ?tr = "decode_trace lib json_loads tmp_name fs (Suc 0) lines initial_state"
  have states: "decode_file_states lib json_loads tmp_name path fs
      = ([fs, fs(tmp_name \<mapsto> [])] @ ?tr) @ [?fs']"
    by (simp add: decode_file_states_def src enc)
  have tr: "s path = Some lines" if "s \<in> set ?tr" for s
    using decode_trace_path [OF fresh that] src by simp
  have inv: "\<forall>s \<in> set (butlast (decode_file_states lib json_loads tmp_name path fs)).
      s path = Some lines"
    unfolding states butlast_snoc using fresh src tr by auto
  have ne: "lines \<noteq> []" using km by auto
  have "last ([fs, fs(tmp_name \<mapsto> [])] @ ?tr) = fs(tmp_name \<mapsto> tmp_lines ?st)"
    using ne decode_trace_last [OF ne, of lib json_loads tmp_name fs "Suc 0" initial_state]
    by (simp add: decode_trace_Nil)
  then have fin: "last (butlast (decode_file_states lib json_loads tmp_name path fs)) tmp_name
      = Some (tmp_lines ?st)"
    unfolding states butlast_snoc by simp
  have l: "last (decode_file_states lib json_loads tmp_name path fs) = ?fs'"
    unfolding states by simp
  show ?thesis
    using r w t [unfolded xs_def ys_def] p c [unfolded b_def] inv fin l fresh
    by (intro exI [of _ ?fs'] exI [of _ ?st]) simp
qed

theorem partial_failure_isolation_witness:
  \<open>(\<exists>fs' st.
      decode_file_inplace sample_lib sample_loads ''tmp1'' ''file1.txt''
        [''file1.txt'' \<mapsto> [''vless://u@h.example:443#A'', ''garbage'', ''vless://v@h.example:80'']]
      = Inr (fs', st)
      \<and> written st = 2 \<and> printed st = [(2, ValueError)]
      \<and> vmess_count st + vless_count st = 2
      \<and> tmp_lines st =
          [''{"add":"h.example","port":"443","id":"u","ps":"A","type":"tcp","encryption":"none","security":"none","sni":"","host":"","path":"","seed":"","fp":"","alpn":"","allowInsecure":1,"mode":"","pbk":"","sid":"","spx":"","pqv":"","ech":"","flow":"","_type":"vless"}'',
           ''{"add":"h.example","port":"80","id":"v","ps":"","type":"tcp","encryption":"none","security":"none","sni":"","host":"","path":"","seed":"","fp":"","alpn":"","allowInsecure":1,"mode":"","pbk":"","sid":"","spx":"","pqv":"","ech":"","flow":"","_type":"vless"}'']
      \<and> fs' ''file1.txt'' = Some (tmp_lines st) \<and> fs' ''tmp1'' = None)
   \<and> (\<exists>fs' st.
      decode_file_inplace sample_lib sample_surrogate_loads ''tmp1'' ''file1.txt''
        [''file1.txt'' \<mapsto> [''vless://u@h.example:443#A'', surrogate_line, ''vless://v@h.example:80'']]
      = Inr (fs', st)
      \<and> written st = 2 \<and> printed st = [(2, UnicodeError)]
      \<and> vmess_count st + vless_count st = 3
      \<and> length (tmp_lines st) = 2
      \<and> fs' ''file1.txt'' = Some (tmp_lines st) \<and> fs' ''tmp1'' = None)\<close>
proof -
  let ?l1 = "''vless://u@h.example:443#A''"
  let ?l3 = "''vless://v@h.example:80''"
  let ?A = "[?l1, ''garbage'', ?l3]"
  let ?B = "[?l1, surrogate_line, ?l3]"
  have goodA: "\<forall>i<length ?A. i \<noteq> 2 - 1 \<longrightarrow> line_ok sample_lib sample_loads (?A ! i)"
  proof (intro allI impI)
    fix i assume "i < length ?A" "i \<noteq> 2 - 1"
    then have "i = 0 \<or> i = 2" by auto
    then show "line_ok sample_lib sample_loads (?A ! i)"
      using sample_line1 [of sample_loads] sample_line3 [of sample_loads] by auto
  qed
  have goodB: "\<forall>i<length ?B. i \<noteq> 2 - 1 \<longrightarrow> line_ok sample_lib sample_surrogate_loads (?B ! i)"
  proof (intro allI impI)
    fix i assume "i < length ?B" "i \<noteq> 2 - 1"
    then have "i = 0 \<or> i = 2" by auto
    then show "line_ok sample_lib sample_surrogate_loads (?B ! i)"
      using sample_line1 [of sample_surrogate_loads] sample_line3 [of sample_surrogate_loads]
      by auto
  qed
  have A: "\<exists>fs' st. decode_file_inplace sample_lib sample_loads ''tmp1'' ''file1.txt''
        [''file1.txt'' \<mapsto> ?A] = Inr (fs', st)
      \<and> written st = length ?A - 1
      \<and> tmp_lines st = map (written_line sample_lib sample_loads) (take (2 - 1) ?A @ drop 2 ?A)
      \<and> printed st = [(2, ValueError)]
      \<and> vmess_count st + vless_count st
          = length ?A - 1 + (if line_counted sample_lib sample_loads (?A ! (2 - 1)) then 1 else 0)
      \<and> fs' ''file1.txt'' = Some (tmp_lines st) \<and> fs' ''tmp1'' = None
      \<and> (\<forall>s \<in> set (butlast (decode_file_states sample_lib sample_loads ''tmp1'' ''file1.txt''
            [''file1.txt'' \<mapsto> ?A])). s ''file1.txt'' = Some ?A)
      \<and> last (butlast (decode_file_states sample_lib sample_loads ''tmp1'' ''file1.txt''
            [''file1.txt'' \<mapsto> ?A])) ''tmp1'' = Some (tmp_lines st)
      \<and> last (decode_file_states sample_lib sample_loads ''tmp1'' ''file1.txt''
            [''file1.txt'' \<mapsto> ?A]) = fs'"
    by (rule partial_failure_isolation [where e = ValueError, OF _ _ _ _ _ _ _ goodA])
       (simp_all add: sample_line2)
  have B: "\<exists>fs' st. decode_file_inplace sample_lib sample_surrogate_loads ''tmp1'' ''file1.txt''
        [''file1.txt'' \<mapsto> ?B] = Inr (fs', st)
      \<and> written st = length ?B - 1
      \<and> tmp_lines st
          = map (written_line sample_lib sample_surrogate_loads) (take (2 - 1) ?B @ drop 2 ?B)
      \<and> printed st = [(2, UnicodeError)]
      \<and> vmess_count st + vless_count st
          = length ?B - 1
            + (if line_counted sample_lib sample_surrogate_loads (?B ! (2 - 1)) then 1 else 0)
      \<and> fs' ''file1.txt'' = Some (tmp_lines st) \<and> fs' ''tmp1'' = None
      \<and> (\<forall>s \<in> set (butlast (decode_file_states sample_lib sample_surrogate_loads ''tmp1''
            ''file1.txt'' [''file1.txt'' \<mapsto> ?B])). s ''file1.txt'' = Some ?B)
      \<and> last (butlast (decode_file_states sample_lib sample_surrogate_loads ''tmp1''
            ''file1.txt'' [''file1.txt'' \<mapsto> ?B])) ''tmp1'' = Some (tmp_lines st)
      \<and> last (decode_file_states sample_lib sample_surrogate_loads ''tmp1'' ''file1.txt''
            [''file1.txt'' \<mapsto> ?B]) = fs'"
    by (rule partial_failure_isolation [where e = UnicodeError, OF _ _ _ _ _ _ _ goodB])
       (simp_all add: sample_surrogate_line sample_surrogate_valid)
  from A obtain fa sa where a:
    "decode_file_inplace sample_lib sample_loads ''tmp1'' ''file1.txt'' [''file1.txt'' \<mapsto> ?A]
      = Inr (fa, sa)"
    "written sa = length ?A - 1"
    "tmp_lines sa = map (written_line sample_lib sample_loads) (take (2 - 1) ?A @ drop 2 ?A)"
    "printed sa = [(2, ValueError)]"
    "vmess_count sa + vless_count sa
      = length ?A - 1 + (if line_counted sample_lib sample_loads (?A ! (2 - 1)) then 1 else 0)"
    "fa ''file1.txt'' = Some (tmp_lines sa)" "fa ''tmp1'' = None"
    by blast
  from B obtain fb sb where b:
    "decode_file_inplace sample_lib sample_surrogate_loads ''tmp1'' ''file1.txt''
      [''file1.txt'' \<mapsto> ?B] = Inr (fb, sb)"
    "written sb = length ?B - 1"
    "tmp_lines sb
      = map (written_line sample_lib sample_surrogate_loads) (take (2 - 1) ?B @ drop 2 ?B)"
    "printed sb = [(2, UnicodeError)]"
    "vmess_count sb + vless_count sb
      = length ?B - 1
        + (if line_counted sample_lib sample_surrogate_loads (?B ! (2 - 1)) then 1 else 0)"
    "fb ''file1.txt'' = Some (tmp_lines sb)" "fb ''tmp1'' = None"
    by blast
  have ca: "\<not> line_counted sample_lib sample_loads ''garbage''"
    using sample_line2 by (simp add: line_counted_def try_body_def then_do_def split: sum.splits)
  show ?thesis
  proof (intro conjI)
    show \<open>\<exists>fs' st.
      decode_file_inplace sample_lib sample_loads ''tmp1'' ''file1.txt''
        [''file1.txt'' \<mapsto> [''vless://u@h.example:443#A'', ''garbage'', ''vless://v@h.example:80'']]
      = Inr (fs', st)
      \<and> written st = 2 \<and> printed st = [(2, ValueError)]
      \<and> vmess_count st + vless_count st = 2
      \<and> tmp_lines st =
          [''{"add":"h.example","port":"443","id":"u","ps":"A","type":"tcp","encryption":"none","security":"none","sni":"","host":"","path":"","seed":"","fp":"","alpn":"","allowInsecure":1,"mode":"","pbk":"","sid":"","spx":"","pqv":"","ech":"","flow":"","_type":"vless"}'',
           ''{"add":"h.example","port":"80","id":"v","ps":"","type":"tcp","encryption":"none","security":"none","sni":"","host":"","path":"","seed":"","fp":"","alpn":"","allowInsecure":1,"mode":"","pbk":"","sid":"","spx":"","pqv":"","ech":"","flow":"","_type":"vless"}'']
      \<and> fs' ''file1.txt'' = Some (tmp_lines st) \<and> fs' ''tmp1'' = None\<close>
      using a ca by (intro exI [of _ fa] exI [of _ sa]) (simp add: sample_written1 sample_written3)
    show "\<exists>fs' st.
      decode_file_inplace sample_lib sample_surrogate_loads ''tmp1'' ''file1.txt''
        [''file1.txt'' \<mapsto> [''vless://u@h.example:443#A'', surrogate_line, ''vless://v@h.example:80'']]
      = Inr (fs', st)
      \<and> written st = 2 \<and> printed st = [(2, UnicodeError)]
      \<and> vmess_count st + vless_count st = 3
      \<and> length (tmp_lines st) = 2
      \<and> fs' ''file1.txt'' = Some (tmp_lines st) \<and> fs' ''tmp1'' = None"
      using b sample_surrogate_counted by (intro exI [of _ fb] exI [of _ sb]) simp
  qed
qed

section \<open>Scheme-B serialization drops false values\<close>

text \<open>
  Claim C10, as it is written, fails for a record whose fields do not survive the syntax
  of a URL. The first record below has the address \<^verbatim>\<open>h?allowInsecure=0#\<close> and
  \<^verbatim>\<open>allowInsecure\<close> 0: the encoder writes no \<^verbatim>\<open>allowInsecure\<close> parameter of its own, but
  in the line the address ends the network location and starts a query, and decoding and
  normalizing the line gives \<^verbatim>\<open>allowInsecure\<close> = 0, not 1. The second record has the
  address \<^verbatim>\<open>2001:db8::1\<close>: the decoder rejects its line, because the text after the
  first colon of the host is not a port.
\<close>

theorem falsy_query_fields_counterexample:
  "map_of (normalize_entry
       [(''_type'', PStr ''vless''), (''id'', PStr ''u''), (''add'', PStr ''h?allowInsecure=0#''),
        (''port'', PInt 443), (''allowInsecure'', PInt 0)]) ''allowInsecure'' = Some (PInt 0)
   \<and> encode_vless_url (PDict (normalize_entry
       [(''_type'', PStr ''vless''), (''id'', PStr ''u''), (''add'', PStr ''h?allowInsecure=0#''),
        (''port'', PInt 443), (''allowInsecure'', PInt 0)]))
     = Inr ''vless://u@h?allowInsecure=0#:443?type=tcp&encryption=none&security=none''
   \<and> decode_vmess_or_vless_line sample_lib sample_loads
       ''vless://u@h?allowInsecure=0#:443?type=tcp&encryption=none&security=none''
     = Inr [(''id'', PStr ''u''), (''add'', PStr ''h''), (''port'', PStr ''None''),
            (''ps'', PStr '':443?type=tcp&encryption=none&security=none''),
            (''allowInsecure'', PStr ''0''), (''_type'', PStr ''vless'')]
   \<and> map_of (normalize_entry
       [(''id'', PStr ''u''), (''add'', PStr ''h''), (''port'', PStr ''None''),
        (''ps'', PStr '':443?type=tcp&encryption=none&security=none''),
        (''allowInsecure'', PStr ''0''), (''_type'', PStr ''vless'')]) ''allowInsecure''
     = Some (PInt 0)
   \<and> map_of (normalize_entry
       [(''_type'', PStr ''vless''), (''id'', PStr ''u''), (''add'', PStr ''2001:db8::1''),
        (''port'', PInt 443), (''allowInsecure'', PInt 0)]) ''allowInsecure'' = Some (PInt 0)
   \<and> encode_vless_url (PDict (normalize_entry
       [(''_type'', PStr ''vless''), (''id'', PStr ''u''), (''add'', PStr ''2001:db8::1''),
        (''port'', PInt 443), (''allowInsecure'', PInt 0)]))
     = Inr ''vless://u@2001:db8::1:443?type=tcp&encryption=none&security=none''
   \<and> decode_vmess_or_vless_line sample_lib sample_loads
       ''vless://u@2001:db8::1:443?type=tcp&encryption=none&security=none''
     = Inl ValueError"
proof (intro conjI)
  show "decode_vmess_or_vless_line sample_lib sample_loads
       ''vless://u@h?allowInsecure=0#:443?type=tcp&encryption=none&security=none''
     = Inr [(''id'', PStr ''u''), (''add'', PStr ''h''), (''port'', PStr ''None''),
            (''ps'', PStr '':443?type=tcp&encryption=none&security=none''),
            (''allowInsecure'', PStr ''0''), (''_type'', PStr ''vless'')]"
    by (simp add: decode_vmess_or_vless_line_def strip_eval startswith_def parse_vless_url_def
        url_eval)
  show "decode_vmess_or_vless_line sample_lib sample_loads
       ''vless://u@2001:db8::1:443?type=tcp&encryption=none&security=none''
     = Inl ValueError"
    by (simp add: decode_vmess_or_vless_line_def strip_eval startswith_def parse_vless_url_def
        url_eval)
  show "map_of (normalize_entry
       [(''id'', PStr ''u''), (''add'', PStr ''h''), (''port'', PStr ''None''),
        (''ps'', PStr '':443?type=tcp&encryption=none&security=none''),
        (''allowInsecure'', PStr ''0''), (''_type'', PStr ''vless'')]) ''allowInsecure''
     = Some (PInt 0)"
    by (simp add: normalize_vless_eval strip_eval lower_def lower_char_def)
qed (simp_all add: normalize_vless_eval encode_vless_eval str_int_def dec_nat.simps)

text \<open>
  Claim C10, amended. The query parameters that \<open>encode_vless_url\<close> writes are the
  canonical query fields whose value is present and true, in the canonical order: a field
  whose value is false (the integer 0, the empty string, the empty list) is dropped, not
  only the empty string. So a record whose \<^verbatim>\<open>allowInsecure\<close> is coerced to 0 is encoded
  without that parameter. When moreover the \<^verbatim>\<open>id\<close> and the \<^verbatim>\<open>add\<close> of the normalized
  record are plain texts, the \<^verbatim>\<open>add\<close> has neither \<^verbatim>\<open>@\<close> nor a colon, and the
  \<^verbatim>\<open>port\<close> is made of digits and is at most 65535, then for every line that the encoder
  returns for the record, with every library and every parser of JSON, decoding the line
  succeeds and normalizing the result gives \<^verbatim>\<open>allowInsecure\<close> = 1, the default.
\<close>

theorem falsy_query_fields_dropped:
  "map fst (query_params config)
     = filter (\<lambda>k. case map_of config k of Some v \<Rightarrow> truthy v | None \<Rightarrow> False) VLESS_QUERY_PARAMS
   \<and> \<not> truthy (PInt 0) \<and> \<not> truthy (PStr []) \<and> \<not> truthy (PList [])
   \<and> (\<forall>v. map_of r ''allowInsecure'' = Some v \<and> truthy_to_int v = 0 \<longrightarrow>
          ''allowInsecure'' \<notin> set (map fst (query_params (normalize_vless_entry r))))
   \<and> (\<forall>line.
          map_of (normalize_vless_entry r) ''allowInsecure'' = Some (PInt 0)
          \<and> plain (py_str (dict_get (normalize_vless_entry r) ''id'' PNone))
          \<and> plain (py_str (dict_get (normalize_vless_entry r) ''add'' PNone))
          \<and> CHR ''@'' \<notin> set (py_str (dict_get (normalize_vless_entry r) ''add'' PNone))
          \<and> CHR '':'' \<notin> set (py_str (dict_get (normalize_vless_entry r) ''add'' PNone))
          \<and> list_all is_digit (py_str (dict_get (normalize_vless_entry r) ''port'' PNone))
          \<and> nat_of_digits (py_str (dict_get (normalize_vless_entry r) ''port'' PNone)) \<le> 65535
          \<and> encode_vless_url (PDict (normalize_vless_entry r)) = Inr line
        \<longrightarrow> (\<exists>obj. decode_vmess_or_vless_line lib json_loads line = Inr obj
               \<and> map_of (normalize_entry obj) ''allowInsecure'' = Some (PInt 1)))"
proof (intro conjI allI impI)
  show "map fst (query_params config)
     = filter (\<lambda>k. case map_of config k of Some v \<Rightarrow> truthy v | None \<Rightarrow> False) VLESS_QUERY_PARAMS"
    by (rule keys_query_params)
  show "''allowInsecure'' \<notin> set (map fst (query_params (normalize_vless_entry r)))"
    if "map_of r ''allowInsecure'' = Some v \<and> truthy_to_int v = 0" for v
    using that allowInsecure_zero_dropped by blast
  show "\<exists>obj. decode_vmess_or_vless_line lib json_loads line = Inr obj
          \<and> map_of (normalize_entry obj) ''allowInsecure'' = Some (PInt 1)"
    if "map_of (normalize_vless_entry r) ''allowInsecure'' = Some (PInt 0)
        \<and> plain (py_str (dict_get (normalize_vless_entry r) ''id'' PNone))
        \<and> plain (py_str (dict_get (normalize_vless_entry r) ''add'' PNone))
        \<and> CHR ''@'' \<notin> set (py_str (dict_get (normalize_vless_entry r) ''add'' PNone))
        \<and> CHR '':'' \<notin> set (py_str (dict_get (normalize_vless_entry r) ''add'' PNone))
        \<and> list_all is_digit (py_str (dict_get (normalize_vless_entry r) ''port'' PNone))
        \<and> nat_of_digits (py_str (dict_get (normalize_vless_entry r) ''port'' PNone)) \<le> 65535
        \<and> encode_vless_url (PDict (normalize_vless_entry r)) = Inr line" for line
    using that by (intro decode_encoded_flip [of "normalize_vless_entry r" line]) simp_all
qed (simp_all add: float_nonzero_def)

theorem falsy_query_fields_dropped_witness:
  "map_of sample_insecure_record ''allowInsecure'' = Some (PStr ''false'')
   \<and> truthy_to_int (PStr ''false'') = 0
   \<and> ''allowInsecure'' \<notin> set (map fst (query_params (normalize_vless_entry sample_insecure_record)))
   \<and> map fst (query_params (normalize_vless_entry sample_insecure_record))
       = [''type'', ''encryption'', ''security'']
   \<and> map_of (normalize_vless_entry sample_insecure_record) ''allowInsecure'' = Some (PInt 0)
   \<and> encode_vless_url (PDict (normalize_vless_entry sample_insecure_record))
       = Inr ''vless://u@h.example:443?type=tcp&encryption=none&security=none''
   \<and> (\<exists>obj. decode_vmess_or_vless_line sample_lib sample_loads
               ''vless://u@h.example:443?type=tcp&encryption=none&security=none'' = Inr obj
          \<and> map_of (normalize_entry obj) ''allowInsecure'' = Some (PInt 1))"
proof -
  have a: "map_of sample_insecure_record ''allowInsecure'' = Some (PStr ''false'')"
    by (simp add: sample_insecure_record_def)
  have b: "truthy_to_int (PStr ''false'') = 0"
    by (simp add: strip_eval lower_def lower_char_def)
  have n: "normalize_vless_entry sample_insecure_record = sample_insecure_normalized"
    using sample_insecure_normalize by (simp add: normalize_entry_def sample_insecure_record_def)
  have c: "map fst (query_params (normalize_vless_entry sample_insecure_record))
       = [''type'', ''encryption'', ''security'']"
    unfolding n
    by (simp add: sample_insecure_normalized_def query_params_def VLESS_QUERY_PARAMS_def
        NON_QUERY_FIELDS_def WANTED_ORDER_VLESS_def)
  have z: "map_of (normalize_vless_entry sample_insecure_record) ''allowInsecure'' = Some (PInt 0)"
    unfolding n by (simp add: sample_insecure_normalized_def)
  have e: "encode_vless_url (PDict (normalize_vless_entry sample_insecure_record))
       = Inr ''vless://u@h.example:443?type=tcp&encryption=none&security=none''"
    unfolding n using sample_insecure_encode by (simp add: sample_insecure_line_def)
  have f: "dict_get (normalize_vless_entry sample_insecure_record) ''id'' PNone = PStr ''u''"
    "dict_get (normalize_vless_entry sample_insecure_record) ''add'' PNone = PStr ''h.example''"
    "dict_get (normalize_vless_entry sample_insecure_record) ''port'' PNone = PStr ''443''"
    unfolding n by (simp_all add: sample_insecure_normalized_def dict_get_def)
  have p: "plain ''u''" "plain ''h.example''" "list_all is_digit ''443''"
    "nat_of_digits ''443'' \<le> 65535"
    by (simp_all add: plain_def solid_def is_space_def is_delim_def is_digit_def nat_of_digits_def)
  show ?thesis
    using a b c z e f p
      falsy_query_fields_dropped [of _ sample_insecure_record sample_lib sample_loads]
    by simp
qed


end
